theory Spec2Isabelle
  imports Complex_Main
begin

section \<open>The currency converter page script (app-script.js)\<close>

text \<open>
  The script keeps four module variables (\<open>isFetching\<close>, \<open>conversionRate\<close>,
  \<open>sourceCurrentValue\<close>, \<open>targetCurrentValue\<close>) and reads and writes a handful of
  DOM properties. Its event handlers are embedded below as functions on a record of
  exactly that state. The handlers lean on JavaScript built-ins (\<open>parseFloat\<close>,
  string-to-number coercion, IEEE double multiplication and division,
  \<open>Number.prototype.toFixed\<close>, \<open>Intl.NumberFormat\<close>), so these are modelled
  first, following ECMA-262 and ECMA-402.

  Modelling choices, stated once:
  \<^item> a JavaScript Number is a sign and a rational magnitude, an infinity or NaN; every
    arithmetic result is rounded to the nearest IEEE 754 binary64 value, ties to even,
    with gradual underflow and overflow to infinity (\<open>round_double\<close>);
  \<^item> a JavaScript string is a \<open>string\<close> holding its UTF-8 bytes; everything the
    script looks at in a string is ASCII, apart from the white space that is trimmed;
  \<^item> \<open>Intl.NumberFormat()\<close> is taken with the en-US conventions (group separator
    \<open>,\<close>, decimal separator \<open>.\<close>) and the ECMA-402 defaults for the decimal style
    (at least 0 and at most 3 fraction digits, rounding half away from zero, grouping
    on); a Number is formatted from the decimal that Number::toString gives it, a
    string from its exact decimal value;
  \<^item> the input element is a text control: its value is whatever string was typed or
    assigned; both select elements offer the same options, so assigning one's value to
    the other takes effect;
  \<^item> the module \<open>currency-to-flag-code.js\<close> is not part of the script; its table is a
    parameter of the handlers that use it.
\<close>

subsection \<open>JavaScript numbers\<close>

text \<open>\<open>Finite neg m\<close> is the number of magnitude \<open>m \<ge> 0\<close> with sign bit \<open>neg\<close>, so
  \<open>Finite True 0\<close> is \<open>-0\<close>; \<open>Infinite neg\<close> is \<open>\<plusminus>Infinity\<close>.\<close>

datatype jsnum = Finite bool rat | Infinite bool | NaN

datatype jsval = Undefined | Num jsnum | Str string

text \<open>Powers with an integer exponent, by repeated squaring.\<close>

function ipow :: "rat \<Rightarrow> int \<Rightarrow> rat" where
  "ipow b k =
     (if k \<le> 0 then 1
      else if even k then (let h = ipow b (k div 2) in h * h)
      else b * ipow b (k - 1))"
  by auto
termination
  by (relation "measure (\<lambda>(b, k). nat k)") auto

definition powz :: "rat \<Rightarrow> int \<Rightarrow> rat" where
  "powz b k = (if 0 \<le> k then ipow b k else 1 / ipow b (- k))"

text \<open>The number of binary digits of a positive integer.\<close>

function bitlen :: "int \<Rightarrow> int" where
  "bitlen n = (if n \<le> 0 then 0 else 1 + bitlen (n div 2))"
  by auto
termination
  by (relation "measure nat") auto

text \<open>For \<open>m > 0\<close>, the exponent \<open>e\<close> with \<open>2^e \<le> m < 2^(e+1)\<close>.\<close>

definition floor_log2 :: "rat \<Rightarrow> int" where
  "floor_log2 m =
     (let (p, d) = quotient_of m;
          k = bitlen p - bitlen d
      in if powz 2 k \<le> m then k else k - 1)"

definition round_half_even :: "rat \<Rightarrow> int" where
  "round_half_even x =
     (let f = \<lfloor>x\<rfloor>; d = x - of_int f
      in if d < 1 / 2 then f else if 1 / 2 < d then f + 1
         else if even f then f else f + 1)"

text \<open>
  Rounding of a non-negative magnitude to binary64: 53 significant bits, the exponent
  not below \<open>-1022\<close> (subnormal numbers are multiples of \<open>2^-1074\<close>), and \<open>None\<close>
  when the rounded magnitude reaches \<open>2^1024\<close> (overflow).
\<close>

definition round_double :: "rat \<Rightarrow> rat option" where
  "round_double m =
     (if m = 0 then Some 0
      else let e = max (floor_log2 m) (- 1022);
               q = powz 2 (e - 52);
               r = of_int (round_half_even (m / q)) * q
           in if powz 2 1024 \<le> r then None else Some r)"

definition to_double :: "bool \<Rightarrow> rat \<Rightarrow> jsnum" where
  "to_double neg m = (case round_double m of None \<Rightarrow> Infinite neg | Some r \<Rightarrow> Finite neg r)"

text \<open>The operators \<open>*\<close> and \<open>/\<close> on Numbers (ECMA-262, Number::multiply and
  Number::divide).\<close>

fun js_mul :: "jsnum \<Rightarrow> jsnum \<Rightarrow> jsnum" where
  "js_mul NaN _ = NaN"
| "js_mul _ NaN = NaN"
| "js_mul (Infinite s) (Infinite t) = Infinite (s \<noteq> t)"
| "js_mul (Infinite s) (Finite t n) = (if n = 0 then NaN else Infinite (s \<noteq> t))"
| "js_mul (Finite s m) (Infinite t) = (if m = 0 then NaN else Infinite (s \<noteq> t))"
| "js_mul (Finite s m) (Finite t n) = to_double (s \<noteq> t) (m * n)"

fun js_div :: "jsnum \<Rightarrow> jsnum \<Rightarrow> jsnum" where
  "js_div NaN _ = NaN"
| "js_div _ NaN = NaN"
| "js_div (Infinite s) (Infinite t) = NaN"
| "js_div (Infinite s) (Finite t n) = Infinite (s \<noteq> t)"
| "js_div (Finite s m) (Infinite t) = Finite (s \<noteq> t) 0"
| "js_div (Finite s m) (Finite t n) =
     (if n = 0 then (if m = 0 then NaN else Infinite (s \<noteq> t))
      else to_double (s \<noteq> t) (m / n))"

definition signed :: "bool \<Rightarrow> rat \<Rightarrow> rat" where
  "signed neg m = (if neg then - m else m)"

text \<open>The abstract operation IsLessThan on Numbers; \<open>None\<close> is its result
  \<open>undefined\<close> (a NaN operand).\<close>

fun js_lessThan :: "jsnum \<Rightarrow> jsnum \<Rightarrow> bool option" where
  "js_lessThan NaN _ = None"
| "js_lessThan _ NaN = None"
| "js_lessThan (Finite s m) (Finite t n) = Some (signed s m < signed t n)"
| "js_lessThan (Infinite s) (Infinite t) = Some (s \<and> \<not> t)"
| "js_lessThan (Infinite s) (Finite _ _) = Some s"
| "js_lessThan (Finite _ _) (Infinite t) = Some (\<not> t)"

text \<open>\<open>a > b\<close> and \<open>a <= b\<close>: both are false when an operand is NaN.\<close>

definition js_gt :: "jsnum \<Rightarrow> jsnum \<Rightarrow> bool" where
  "js_gt a b = (js_lessThan b a = Some True)"

definition js_le :: "jsnum \<Rightarrow> jsnum \<Rightarrow> bool" where
  "js_le a b = (js_lessThan b a = Some False)"

text \<open>ToBoolean on a Number, and the expression \<open>x || 0\<close>.\<close>

fun ToBoolean_num :: "jsnum \<Rightarrow> bool" where
  "ToBoolean_num NaN = False"
| "ToBoolean_num (Infinite _) = True"
| "ToBoolean_num (Finite _ m) = (m \<noteq> 0)"

definition or_zero :: "jsnum \<Rightarrow> jsnum" where
  "or_zero x = (if ToBoolean_num x then x else Finite False 0)"

subsection \<open>Strings to numbers\<close>

text \<open>
  Decimal digits. \<open>parse_digits\<close> is the value of a digit string.
\<close>

definition is_digit :: "char \<Rightarrow> bool" where
  "is_digit c = (c \<in> set ''0123456789'')"

definition digit_val :: "char \<Rightarrow> int" where
  "digit_val c = of_char c - 48"

definition digit_char :: "int \<Rightarrow> char" where
  "digit_char d = char_of (48 + d)"

definition parse_digits :: "string \<Rightarrow> int" where
  "parse_digits ds = foldl (\<lambda>a c. 10 * a + digit_val c) 0 ds"

text \<open>
  White space and line terminators (WhiteSpace and LineTerminator of ECMA-262), on the
  UTF-8 bytes of the string: the six ASCII ones, U+00A0 in two bytes, and in three
  bytes U+1680, U+2000 to U+200A, U+2028, U+2029, U+202F, U+205F, U+3000 and U+FEFF.
\<close>

definition is_ws :: "char \<Rightarrow> bool" where
  "is_ws c = (c \<in> set [CHR 0x09, CHR 0x0A, CHR 0x0B, CHR 0x0C, CHR 0x0D, CHR '' ''])"

definition is_ws2 :: "char \<Rightarrow> char \<Rightarrow> bool" where
  "is_ws2 a b = (a = CHR 0xC2 \<and> b = CHR 0xA0)"

definition is_ws3 :: "char \<Rightarrow> char \<Rightarrow> char \<Rightarrow> bool" where
  "is_ws3 a b c =
     ((a = CHR 0xE1 \<and> b = CHR 0x9A \<and> c = CHR 0x80) \<or>
      (a = CHR 0xE2 \<and> b = CHR 0x80 \<and>
         c \<in> set [CHR 0x80, CHR 0x81, CHR 0x82, CHR 0x83, CHR 0x84, CHR 0x85, CHR 0x86,
                  CHR 0x87, CHR 0x88, CHR 0x89, CHR 0x8A, CHR 0xA8, CHR 0xA9, CHR 0xAF]) \<or>
      (a = CHR 0xE2 \<and> b = CHR 0x81 \<and> c = CHR 0x9F) \<or>
      (a = CHR 0xE3 \<and> b = CHR 0x80 \<and> c = CHR 0x80) \<or>
      (a = CHR 0xEF \<and> b = CHR 0xBB \<and> c = CHR 0xBF))"

fun trim_start :: "string \<Rightarrow> string" where
  "trim_start (a # b # c # s) =
     (if is_ws a then trim_start (b # c # s)
      else if is_ws2 a b then trim_start (c # s)
      else if is_ws3 a b c then trim_start s
      else a # b # c # s)"
| "trim_start [a, b] = (if is_ws a then trim_start [b] else if is_ws2 a b then [] else [a, b])"
| "trim_start [a] = (if is_ws a then [] else [a])"
| "trim_start [] = []"

text \<open>The same from the end of the string, on the reversed bytes.\<close>

fun trim_start_rev :: "string \<Rightarrow> string" where
  "trim_start_rev (c # b # a # s) =
     (if is_ws c then trim_start_rev (b # a # s)
      else if is_ws2 b c then trim_start_rev (a # s)
      else if is_ws3 a b c then trim_start_rev s
      else c # b # a # s)"
| "trim_start_rev [b, a] = (if is_ws b then trim_start_rev [a] else if is_ws2 a b then [] else [b, a])"
| "trim_start_rev [a] = (if is_ws a then [] else [a])"
| "trim_start_rev [] = []"

definition trim :: "string \<Rightarrow> string" where
  "trim s = rev (trim_start_rev (rev (trim_start s)))"

text \<open>
  The grammar StrDecimalLiteral of ECMA-262: an optional sign, then \<open>Infinity\<close> or
  digits with an optional fraction and an optional exponent part. The scanners return
  the mathematical value of the longest prefix of their argument that the grammar
  derives, together with the rest of the argument; \<open>None\<close> when no prefix does. An
  exponent indicator that no digits follow is not part of the literal.
\<close>

datatype mv = MV rat | MVInfinity

definition scan_exponent :: "string \<Rightarrow> int \<times> string" where
  "scan_exponent s =
     (case s of
        [] \<Rightarrow> (0, s)
      | c # t \<Rightarrow>
          if c = CHR ''e'' \<or> c = CHR ''E'' then
            (let (neg, u) =
                   (case t of
                      [] \<Rightarrow> (False, t)
                    | d # u' \<Rightarrow>
                        if d = CHR ''-'' then (True, u')
                        else if d = CHR ''+'' then (False, u') else (False, t));
                 ds = takeWhile is_digit u
             in if ds = [] then (0, s)
                else (if neg then - parse_digits ds else parse_digits ds, dropWhile is_digit u))
          else (0, s))"

definition scan_unsigned :: "string \<Rightarrow> (mv \<times> string) option" where
  "scan_unsigned s =
     (if take 8 s = ''Infinity'' then Some (MVInfinity, drop 8 s)
      else
        let ip = takeWhile is_digit s;
            r1 = dropWhile is_digit s;
            (fp, r2) =
               (case r1 of
                  [] \<Rightarrow> ([], r1)
                | c # t \<Rightarrow>
                    if c = CHR ''.'' \<and> \<not> (ip = [] \<and> takeWhile is_digit t = [])
                    then (takeWhile is_digit t, dropWhile is_digit t) else ([], r1))
        in if ip = [] \<and> fp = [] then None
           else let (ex, r3) = scan_exponent r2
                in Some (MV (of_int (parse_digits (ip @ fp)) * powz 10 (ex - int (length fp))), r3))"

definition scan_decimal :: "string \<Rightarrow> (bool \<times> mv \<times> string) option" where
  "scan_decimal s =
     (let (neg, t) =
            (case s of
               [] \<Rightarrow> (False, s)
             | c # u \<Rightarrow>
                 if c = CHR ''-'' then (True, u)
                 else if c = CHR ''+'' then (False, u) else (False, s))
      in case scan_unsigned t of
           None \<Rightarrow> None
         | Some (v, rest) \<Rightarrow> Some (neg, v, rest))"

text \<open>
  \<open>parseFloat\<close> skips leading white space and converts the longest literal prefix, NaN
  when there is none. \<open>StringToNumber\<close> is the coercion used by \<open><=\<close> and \<open>>\<close>
  on a string operand: the whole trimmed string must be a literal (a decimal one, or
  an unsigned binary, octal or hexadecimal integer); the empty string is \<open>0\<close>.
\<close>

definition mv_number :: "bool \<Rightarrow> mv \<Rightarrow> jsnum" where
  "mv_number neg v = (case v of MVInfinity \<Rightarrow> Infinite neg | MV r \<Rightarrow> to_double neg r)"

definition parseFloat :: "string \<Rightarrow> jsnum" where
  "parseFloat s =
     (case scan_decimal (trim_start s) of
        None \<Rightarrow> NaN
      | Some (neg, v, rest) \<Rightarrow> mv_number neg v)"

definition radix_digit :: "int \<Rightarrow> char \<Rightarrow> int option" where
  "radix_digit radix c =
     (let v = (if is_digit c then digit_val c
               else if c \<in> set ''abcdef'' then of_char c - 87
               else if c \<in> set ''ABCDEF'' then of_char c - 55
               else 16)
      in if v < radix then Some v else None)"

definition radix_literal :: "string \<Rightarrow> int option" where
  "radix_literal s =
     (case s of
        z # x # ds \<Rightarrow>
          (let radix = (if x \<in> set ''xX'' then 16 else if x \<in> set ''oO'' then 8
                        else if x \<in> set ''bB'' then 2 else 0)
           in if z = CHR ''0'' \<and> radix \<noteq> 0 \<and> ds \<noteq> [] \<and> list_all (\<lambda>c. radix_digit radix c \<noteq> None) ds
              then Some (foldl (\<lambda>a c. radix * a + the (radix_digit radix c)) 0 ds)
              else None)
      | _ \<Rightarrow> None)"

definition StringToNumber :: "string \<Rightarrow> jsnum" where
  "StringToNumber s =
     (let t = trim s
      in if t = [] then Finite False 0
         else case radix_literal t of
                Some n \<Rightarrow> to_double False (of_int n)
              | None \<Rightarrow>
                  (case scan_decimal t of
                     Some (neg, v, []) \<Rightarrow> mv_number neg v
                   | _ \<Rightarrow> NaN))"

fun ToNumber :: "jsval \<Rightarrow> jsnum" where
  "ToNumber Undefined = NaN"
| "ToNumber (Num x) = x"
| "ToNumber (Str s) = StringToNumber s"

subsection \<open>Numbers to strings\<close>

text \<open>
  The decimal digits of a non-negative integer, and the number of decimal digits of a
  positive one.
\<close>

function digits_of :: "int \<Rightarrow> string" where
  "digits_of n = (if n < 10 then [digit_char n] else digits_of (n div 10) @ [digit_char (n mod 10)])"
  by auto
termination
  by (relation "measure nat") auto

function declen :: "int \<Rightarrow> int" where
  "declen n = (if n \<le> 0 then 0 else 1 + declen (n div 10))"
  by auto
termination
  by (relation "measure nat") auto

text \<open>
  Number::toString for a positive finite number \<open>x\<close>: integers \<open>n\<close>, \<open>k\<close>, \<open>s\<close> with
  \<open>k\<close> as small as possible such that \<open>s\<close> has \<open>k\<close> digits and \<open>s * 10^(n-k)\<close>
  rounds to \<open>x\<close>; among several \<open>s\<close> the one closest to \<open>x\<close>. For each \<open>k\<close> from 1
  on, the two \<open>k\<close>-digit neighbours of \<open>x\<close> are tried; 17 digits always suffice for a
  double, and the last equation of \<open>shortest_from\<close> only makes the function total on
  magnitudes that are not doubles. \<open>decimal_exponent x\<close> is the \<open>n\<close> with
  \<open>10^(n-1) \<le> x < 10^n\<close>.
\<close>

definition decimal_exponent :: "rat \<Rightarrow> int" where
  "decimal_exponent x =
     (let (p, d) = quotient_of x;
          k = declen p - declen d
      in if powz 10 k \<le> x then k + 1 else k)"

definition digit_candidates :: "rat \<Rightarrow> int \<Rightarrow> int \<Rightarrow> (int \<times> int) list" where
  "digit_candidates x n0 k =
     (let lo = \<lfloor>x / powz 10 (n0 - k)\<rfloor>;
          up = (if of_int (lo + 1) = powz 10 k then (\<lfloor>powz 10 (k - 1)\<rfloor>, n0 + 1) else (lo + 1, n0))
      in filter (\<lambda>(s, n). round_double (of_int s * powz 10 (n - k)) = Some x) [(lo, n0), up])"

fun pick_closest :: "rat \<Rightarrow> int \<Rightarrow> (int \<times> int) list \<Rightarrow> (int \<times> int) option" where
  "pick_closest x k [] = None"
| "pick_closest x k [c] = Some c"
| "pick_closest x k (c1 # c2 # _) =
     (let d1 = \<bar>of_int (fst c1) * powz 10 (snd c1 - k) - x\<bar>;
          d2 = \<bar>of_int (fst c2) * powz 10 (snd c2 - k) - x\<bar>
      in if d1 < d2 then Some c1 else if d2 < d1 then Some c2
         else if even (fst c1) then Some c1 else Some c2)"

fun shortest_from :: "rat \<Rightarrow> int \<Rightarrow> int \<Rightarrow> nat \<Rightarrow> int \<times> int \<times> int" where
  "shortest_from x n0 k 0 = (\<lfloor>x / powz 10 (n0 - k)\<rfloor>, n0, k)"
| "shortest_from x n0 k (Suc fuel) =
     (case pick_closest x k (digit_candidates x n0 k) of
        Some (s, n) \<Rightarrow> (s, n, k)
      | None \<Rightarrow> shortest_from x n0 (k + 1) fuel)"

definition shortest_digits :: "rat \<Rightarrow> int \<times> int \<times> int" where
  "shortest_digits x = shortest_from x (decimal_exponent x) 1 17"

definition positive_to_string :: "rat \<Rightarrow> string" where
  "positive_to_string m =
     (let (s, n, k) = shortest_digits m;
          ds = digits_of s
      in if k \<le> n \<and> n \<le> 21 then ds @ replicate (nat (n - k)) (CHR ''0'')
         else if 0 < n \<and> n \<le> 21 then take (nat n) ds @ ''.'' @ drop (nat n) ds
         else if - 6 < n \<and> n \<le> 0 then ''0.'' @ replicate (nat (- n)) (CHR ''0'') @ ds
         else let e = n - 1;
                  es = (if e < 0 then ''-'' else ''+'') @ digits_of \<bar>e\<bar>
              in if k = 1 then ds @ ''e'' @ es
                 else take 1 ds @ ''.'' @ drop 1 ds @ ''e'' @ es)"

definition Number_toString :: "jsnum \<Rightarrow> string" where
  "Number_toString x =
     (case x of
        NaN \<Rightarrow> ''NaN''
      | Infinite neg \<Rightarrow> (if neg then ''-Infinity'' else ''Infinity'')
      | Finite neg m \<Rightarrow>
          if m = 0 then ''0'' else (if neg then ''-'' else []) @ positive_to_string m)"

fun ToString :: "jsval \<Rightarrow> string" where
  "ToString Undefined = ''undefined''"
| "ToString (Num x) = Number_toString x"
| "ToString (Str s) = s"

text \<open>
  Number.prototype.toFixed: for a magnitude below \<open>10^21\<close> the integer \<open>n\<close> for which
  \<open>n / 10^f\<close> is closest to the number (the larger \<open>n\<close> on a tie), written with at
  least \<open>f + 1\<close> digits and a decimal point before the last \<open>f\<close>; otherwise the
  result of ToString.
\<close>

definition toFixed :: "jsnum \<Rightarrow> nat \<Rightarrow> string" where
  "toFixed x f =
     (case x of
        NaN \<Rightarrow> ''NaN''
      | Infinite neg \<Rightarrow> (if neg then ''-Infinity'' else ''Infinity'')
      | Finite neg m \<Rightarrow>
          (if neg \<and> 0 < m then ''-'' else []) @
          (if powz 10 21 \<le> m then positive_to_string m
           else let n = \<lfloor>m * powz 10 (int f) + 1 / 2\<rfloor>;
                    ds = digits_of n;
                    ds' = (if f \<noteq> 0 \<and> length ds \<le> f
                           then replicate (f + 1 - length ds) (CHR ''0'') @ ds else ds)
                in if f = 0 then ds'
                   else take (length ds' - f) ds' @ ''.'' @ drop (length ds' - f) ds'))"

subsection \<open>Intl.NumberFormat\<close>

text \<open>
  \<open>Intl.NumberFormat().format\<close>. The argument becomes a decimal value: a Number by
  the shortest digits that round back to it, those of Number::toString
  (\<open>shortest_decimal\<close>), a string by its exact decimal value unless that value over-
  or underflows the doubles. The result type \<open>jsnum\<close> is reused for it, with a
  magnitude that need not be a double. The value is then
  rounded to three fraction digits, half away from zero; the integer digits are
  grouped in threes, and trailing zeros of the fraction are dropped. The infinity sign is
  given by its UTF-8 bytes.
\<close>

definition string_to_intl_mv :: "string \<Rightarrow> jsnum" where
  "string_to_intl_mv s =
     (let t = trim s
      in if t = [] then Finite False 0
         else case radix_literal t of
                Some n \<Rightarrow> (if round_double (of_int n) = None then Infinite False else Finite False (of_int n))
              | None \<Rightarrow>
                  (case scan_decimal t of
                     Some (neg, MVInfinity, []) \<Rightarrow> Infinite neg
                   | Some (neg, MV r, []) \<Rightarrow>
                       (case round_double r of
                          None \<Rightarrow> Infinite neg
                        | Some d \<Rightarrow> if d = 0 then Finite neg 0 else Finite neg r)
                   | _ \<Rightarrow> NaN))"

definition shortest_decimal :: "rat \<Rightarrow> rat" where
  "shortest_decimal m =
     (if m = 0 then 0
      else let (s, n, k) = shortest_digits m in of_int s * powz 10 (n - k))"

fun ToIntlMathematicalValue :: "jsval \<Rightarrow> jsnum" where
  "ToIntlMathematicalValue Undefined = NaN"
| "ToIntlMathematicalValue (Num (Finite neg m)) = Finite neg (shortest_decimal m)"
| "ToIntlMathematicalValue (Num (Infinite neg)) = Infinite neg"
| "ToIntlMathematicalValue (Num NaN) = NaN"
| "ToIntlMathematicalValue (Str s) = string_to_intl_mv s"

function group_digits :: "string \<Rightarrow> string" where
  "group_digits ds =
     (if length ds \<le> 3 then ds
      else group_digits (take (length ds - 3) ds) @ '','' @ drop (length ds - 3) ds)"
  by auto
termination
  by (relation "measure length") auto

definition strip_trailing_zeros :: "string \<Rightarrow> string" where
  "strip_trailing_zeros ds = rev (dropWhile (\<lambda>c. c = CHR ''0'') (rev ds))"

definition format_decimal :: "jsnum \<Rightarrow> string" where
  "format_decimal x =
     (case x of
        NaN \<Rightarrow> ''NaN''
      | Infinite neg \<Rightarrow> (if neg then ''-'' else []) @ [CHR 0xE2, CHR 0x88, CHR 0x9E]
      | Finite neg m \<Rightarrow>
          (let n = \<lfloor>m * 1000 + 1 / 2\<rfloor>;
               fd = digits_of (n mod 1000);
               fp = strip_trailing_zeros (replicate (3 - length fd) (CHR ''0'') @ fd)
           in (if neg then ''-'' else []) @ group_digits (digits_of (n div 1000)) @
              (if fp = [] then [] else ''.'' @ fp)))"

definition formatCurrency :: "jsval \<Rightarrow> string" where
  "formatCurrency number = format_decimal (ToIntlMathematicalValue number)"

subsection \<open>The page state\<close>

text \<open>
  The DOM properties the script touches and its four module variables. The variable
  \<open>targetCurrentValue\<close> starts as the number \<open>0\<close> and afterwards holds the string
  returned by \<open>toFixed\<close>; \<open>conversionRate\<close> holds whatever the response's
  \<open>conversion_rate\<close> field was (\<open>Undefined\<close> when the field is absent).
\<close>

record page =
  inputSourceCurrency_value :: string
  selectSourceCurrency_value :: string
  selectTargetCurrency_value :: string
  imageSourceCurrency_src :: string
  imageTargetCurrency_src :: string
  exchangeRateText_textContent :: string
  isFetching :: bool
  conversionRate :: jsval
  sourceCurrentValue :: jsnum
  targetCurrentValue :: jsval

text \<open>An entry of the table exported by \<open>currency-to-flag-code.js\<close>.\<close>

record flag_data =
  name :: string
  flag :: string

type_synonym flag_table = "string \<Rightarrow> flag_data option"

datatype select_id = SelectSourceCurrency | SelectTargetCurrency

text \<open>What a handler does to the world outside the page state.\<close>

datatype effect = Alert string | Fetch string | ConsoleLog string

text \<open>
  How the awaited part of \<open>handleConvert\<close> ends: \<open>Throws\<close> when \<open>fetch\<close> rejects,
  \<open>response.json()\<close> rejects or the parsed body has no properties to read (the
  \<open>catch\<close> block runs); \<open>Data v\<close> when the body parses and \<open>v\<close> is the value of its
  \<open>conversion_rate\<close> property: a number, a string, or \<open>undefined\<close> when the body has
  no such property (other JSON values in that place are not modelled).
\<close>

datatype response = Throws | Data jsval

definition API_Key :: string where
  "API_Key = ''b20b342878a7581b47213640''"

definition request_url :: "string \<Rightarrow> string \<Rightarrow> string" where
  "request_url src tgt =
     ''https://v6.exchangerate-api.com/v6/'' @ API_Key @ ''/pair/'' @ src @ ''/'' @ tgt"

subsection \<open>The handlers\<close>

definition updateExchangeRate :: "page \<Rightarrow> page" where
  "updateExchangeRate s =
     (let src = or_zero (parseFloat (inputSourceCurrency_value s));
          tgt = Str (toFixed (js_mul src (ToNumber (conversionRate s))) 2)
      in s\<lparr>sourceCurrentValue := src,
           targetCurrentValue := tgt,
           exchangeRateText_textContent :=
             formatCurrency (Num src) @ '' '' @ selectSourceCurrency_value s @ '' '' @
             [CHR 0x0A] @ ''    = '' @ formatCurrency tgt @ '' '' @ selectTargetCurrency_value s\<rparr>)"

text \<open>The click handler of \<open>buttonSwap\<close>.\<close>

definition buttonSwap_click :: "page \<Rightarrow> page" where
  "buttonSwap_click s =
     (let s1 = s\<lparr>selectSourceCurrency_value := selectTargetCurrency_value s,
                 selectTargetCurrency_value := selectSourceCurrency_value s\<rparr>;
          s2 = s1\<lparr>imageSourceCurrency_src := imageTargetCurrency_src s1,
                   imageTargetCurrency_src := imageSourceCurrency_src s1\<rparr>;
          s3 = s2\<lparr>inputSourceCurrency_value := ToString (targetCurrentValue s2)\<rparr>;
          s4 = (if isFetching s3
                then s3\<lparr>conversionRate :=
                          Num (js_div (Finite False 1) (ToNumber (conversionRate s3)))\<rparr>
                else s3)
      in updateExchangeRate s4)"

text \<open>The \<open>input\<close> handler of \<open>inputSourceCurrency\<close>; the element's value has already
  been changed by the browser when it runs.\<close>

definition inputSourceCurrency_input :: "page \<Rightarrow> page" where
  "inputSourceCurrency_input s =
     (let s1 = (if isFetching s \<and>
                   js_gt (StringToNumber (inputSourceCurrency_value s)) (Finite False 0)
                then updateExchangeRate s else s)
      in if isFetching s1
         then updateExchangeRate
                (if inputSourceCurrency_value s1 = [] then s1\<lparr>inputSourceCurrency_value := []\<rparr>
                 else s1)
         else s1)"

text \<open>
  \<open>handleConvert\<close> is asynchronous. \<open>handleConvert_call\<close> is the part that runs when
  the handler is invoked, up to the \<open>await\<close>: it returns the page, what it did to the
  outside, and the currency pair of the request it issued, if any. Its argument is the
  value of \<open>navigator.onLine\<close> at that moment. \<open>handleConvert_resume\<close> is the rest,
  which runs when the request settles; its boolean argument is \<open>navigator.onLine\<close>
  as read in the \<open>catch\<close> block.
\<close>

definition handleConvert_call :: "bool \<Rightarrow> page \<Rightarrow> page \<times> effect list \<times> (string \<times> string) option" where
  "handleConvert_call onLine s =
     (if js_le (StringToNumber (inputSourceCurrency_value s)) (Finite False 0)
      then (s, [Alert ''Please enter a valid amount.''], None)
      else if \<not> onLine
      then (s\<lparr>exchangeRateText_textContent := ''No internet connection!''\<rparr>,
            [Alert ''You are offline. Please check your internet connection.''], None)
      else (s\<lparr>exchangeRateText_textContent := ''Fetching exchange rate, please wait...''\<rparr>,
            [Fetch (request_url (selectSourceCurrency_value s) (selectTargetCurrency_value s))],
            Some (selectSourceCurrency_value s, selectTargetCurrency_value s)))"

definition handleConvert_resume :: "response \<Rightarrow> bool \<Rightarrow> page \<Rightarrow> page \<times> effect list" where
  "handleConvert_resume r onLine s =
     (case r of
        Data v \<Rightarrow> (updateExchangeRate (s\<lparr>conversionRate := v, isFetching := True\<rparr>), [])
      | Throws \<Rightarrow>
          (s\<lparr>exchangeRateText_textContent :=
               (if \<not> onLine then ''No internet connection!''
                else ''Error fetching exchange rate!'')\<rparr>,
           [ConsoleLog ''Error fetching exchange rate!'']))"

definition changeFlag :: "flag_table \<Rightarrow> select_id \<Rightarrow> page \<Rightarrow> page" where
  "changeFlag currencyToFlagCode selectId s =
     (let selectValue = (case selectId of
                           SelectSourceCurrency \<Rightarrow> selectSourceCurrency_value s
                         | SelectTargetCurrency \<Rightarrow> selectTargetCurrency_value s)
      in case currencyToFlagCode selectValue of
           None \<Rightarrow> s
         | Some flagData \<Rightarrow>
             if selectId = SelectSourceCurrency
             then s\<lparr>imageSourceCurrency_src := ''https://flagcdn.com/w640/'' @ flag flagData @ ''.png''\<rparr>
             else s\<lparr>imageTargetCurrency_src := ''https://flagcdn.com/w640/'' @ flag flagData @ ''.png''\<rparr>)"

text \<open>The \<open>change\<close> handler attached to each select element.\<close>

definition select_change :: "flag_table \<Rightarrow> select_id \<Rightarrow> page \<Rightarrow> page" where
  "select_change currencyToFlagCode selectId s =
     changeFlag currencyToFlagCode selectId
       (updateExchangeRate
          (s\<lparr>inputSourceCurrency_value := ToString (Num (Finite False 0)),
             isFetching := False\<rparr>))"

subsection \<open>Events\<close>

text \<open>
  The page reacts to one event at a time. \<open>pending\<close> lists the requests that were
  issued and have not settled, each with the currency pair it was issued for. An event
  carries what the environment decides: the text typed, the option chosen, the value
  of \<open>navigator.onLine\<close>, and for the settling of the \<open>i\<close>-th outstanding request
  its outcome. \<open>Convert\<close> stands for a click on the convert button and for the Enter
  key in the input, which both call \<open>handleConvert\<close>; \<open>Input v\<close> and
  \<open>Change selectId code\<close> first give the element its new value, as the browser does
  before it dispatches the event.
\<close>

datatype event =
    Swap
  | Input string
  | Convert bool
  | Change select_id string
  | Settle nat response bool

record system =
  current :: page
  pending :: "(string \<times> string) list"

definition select_option :: "select_id \<Rightarrow> string \<Rightarrow> page \<Rightarrow> page" where
  "select_option selectId code s =
     (case selectId of
        SelectSourceCurrency \<Rightarrow> s\<lparr>selectSourceCurrency_value := code\<rparr>
      | SelectTargetCurrency \<Rightarrow> s\<lparr>selectTargetCurrency_value := code\<rparr>)"

fun step :: "flag_table \<Rightarrow> event \<Rightarrow> system \<Rightarrow> system \<times> effect list" where
  "step tbl Swap st = (st\<lparr>current := buttonSwap_click (current st)\<rparr>, [])"
| "step tbl (Input v) st =
     (st\<lparr>current := inputSourceCurrency_input ((current st)\<lparr>inputSourceCurrency_value := v\<rparr>)\<rparr>, [])"
| "step tbl (Convert onLine) st =
     (case handleConvert_call onLine (current st) of
        (s', out, req) \<Rightarrow>
          (st\<lparr>current := s',
              pending := pending st @ (case req of None \<Rightarrow> [] | Some pair \<Rightarrow> [pair])\<rparr>, out))"
| "step tbl (Change selectId code) st =
     (st\<lparr>current := select_change tbl selectId (select_option selectId code (current st))\<rparr>, [])"
| "step tbl (Settle i r onLine) st =
     (if i < length (pending st)
      then case handleConvert_resume r onLine (current st) of
             (s', out) \<Rightarrow>
               (st\<lparr>current := s', pending := take i (pending st) @ drop (Suc i) (pending st)\<rparr>, out)
      else (st, []))"

fun run :: "flag_table \<Rightarrow> event list \<Rightarrow> system \<Rightarrow> system \<times> effect list" where
  "run tbl [] st = (st, [])"
| "run tbl (e # es) st =
     (case step tbl e st of
        (st1, out1) \<Rightarrow> (case run tbl es st1 of (st2, out2) \<Rightarrow> (st2, out1 @ out2)))"

subsection \<open>Example states\<close>

text \<open>
  The page as the script leaves it after loading: the module variables as declared,
  the selects set to USD and PHP. The input's value, the image sources and the status
  text come from the HTML document and are parameters.
\<close>

definition initial_page :: "string \<Rightarrow> string \<Rightarrow> string \<Rightarrow> string \<Rightarrow> page" where
  "initial_page input_text src_image tgt_image status_text =
     \<lparr>inputSourceCurrency_value = input_text,
      selectSourceCurrency_value = ''USD'',
      selectTargetCurrency_value = ''PHP'',
      imageSourceCurrency_src = src_image,
      imageTargetCurrency_src = tgt_image,
      exchangeRateText_textContent = status_text,
      isFetching = False,
      conversionRate = Num (Finite False 0),
      sourceCurrentValue = Finite False 0,
      targetCurrentValue = Num (Finite False 0)\<rparr>"

definition initial_system :: system where
  "initial_system = \<lparr>current = initial_page [] [] [] [], pending = []\<rparr>"

text \<open>A small table in the shape of \<open>currencyToFlagCode\<close>, for examples.\<close>

definition example_flags :: flag_table where
  "example_flags =
     [''USD'' \<mapsto> \<lparr>name = ''United States Dollar'', flag = ''us''\<rparr>,
      ''PHP'' \<mapsto> \<lparr>name = ''Philippine Peso'', flag = ''ph''\<rparr>,
      ''EUR'' \<mapsto> \<lparr>name = ''Euro'', flag = ''eu''\<rparr>,
      ''JPY'' \<mapsto> \<lparr>name = ''Japanese Yen'', flag = ''jp''\<rparr>]"

text \<open>The page holding a fetched rate of 56 for USD to PHP and the amount 100.\<close>

definition fetched_system :: system where
  "fetched_system =
     fst (run example_flags
            [Input ''100'', Convert True, Settle 0 (Data (Num (Finite False 56))) True]
            initial_system)"

text \<open>The events that store a rate: a request settling with a parsed body.\<close>

fun is_rate_response :: "event \<Rightarrow> bool" where
  "is_rate_response (Settle i (Data v) onLine) = True"
| "is_rate_response _ = False"

text \<open>The events that settle a request.\<close>

fun is_settle :: "event \<Rightarrow> bool" where
  "is_settle (Settle i r onLine) = True"
| "is_settle _ = False"

subsection \<open>Decimal rounding, as the specification words it\<close>

text \<open>A value rounded to two decimal places (to the nearest hundredth, a tie going up), and
  the decimal numeral with exactly two fraction digits of a non-negative number of
  hundredths.\<close>

definition round2 :: "rat \<Rightarrow> rat" where
  "round2 x = of_int \<lfloor>x * 100 + 1 / 2\<rfloor> / 100"

definition fixed2 :: "rat \<Rightarrow> string" where
  "fixed2 q =
     (let n = \<lfloor>q * 100\<rfloor>
      in digits_of (n div 100) @ ''.'' @ [digit_char (n mod 100 div 10), digit_char (n mod 10)])"

text \<open>The fraction part shown for a number of thousandths \<open>k\<close> (\<open>0 \<le> k < 1000\<close>):
  nothing when \<open>k = 0\<close>, otherwise the decimal point and one to three digits, the last
  of them not zero.\<close>

definition fraction_digits :: "int \<Rightarrow> string" where
  "fraction_digits k =
     (if k = 0 then []
      else ''.'' @
        (if k mod 100 = 0 then [digit_char (k div 100)]
         else if k mod 10 = 0 then [digit_char (k div 100), digit_char (k div 10 mod 10)]
         else [digit_char (k div 100), digit_char (k div 10 mod 10), digit_char (k mod 10)]))"

section \<open>Properties\<close>

subsection \<open>Rounding to double precision\<close>

declare ipow.simps [simp del] bitlen.simps [simp del] digits_of.simps [simp del]
  declen.simps [simp del] group_digits.simps [simp del]


lemma ipow_eq_power: "0 \<le> k \<Longrightarrow> ipow b k = b ^ nat k"
proof (induction b k rule: ipow.induct)
  case (1 b k)
  show ?case
  proof (cases "k \<le> 0")
    case True
    with "1.prems" show ?thesis by (subst ipow.simps) simp
  next
    case pos: False
    show ?thesis
    proof (cases "even k")
      case True
      with pos "1.IH"(1) have h: "ipow b (k div 2) = b ^ nat (k div 2)" by simp
      from True pos have "nat k = nat (k div 2) + nat (k div 2)" by (auto elim!: evenE)
      then have "b ^ nat k = b ^ nat (k div 2) * b ^ nat (k div 2)"
        by (metis power_add)
      with pos True h show ?thesis
        by (subst ipow.simps) (simp add: Let_def)
    next
      case False
      with pos "1.IH"(2) have h: "ipow b (k - 1) = b ^ nat (k - 1)" by simp
      from pos have "nat k = Suc (nat (k - 1))" by simp
      then have "b ^ nat k = b * b ^ nat (k - 1)" by simp
      with pos False h show ?thesis
        by (subst ipow.simps) simp
    qed
  qed
qed

lemma powz_eq_powi: "powz b k = b powi k"
  by (simp add: powz_def ipow_eq_power power_int_def power_inverse inverse_eq_divide
        power_one_over)

lemma bitlen_bounds:
  "0 < n \<Longrightarrow> 1 \<le> bitlen n \<and> 2 ^ nat (bitlen n - 1) \<le> n \<and> n < 2 ^ nat (bitlen n)"
proof (induction n rule: bitlen.induct)
  case (1 n)
  show ?case
  proof (cases "n = 1")
    case True
    then show ?thesis by (simp add: bitlen.simps [of 1] bitlen.simps [of 0])
  next
    case False
    with "1.prems" have h: "0 < n div 2" by simp
    with "1.IH" "1.prems" have ih: "1 \<le> bitlen (n div 2)"
      "2 ^ nat (bitlen (n div 2) - 1) \<le> n div 2" "n div 2 < 2 ^ nat (bitlen (n div 2))"
      by simp_all
    have b: "bitlen n = 1 + bitlen (n div 2)"
      using "1.prems" by (subst bitlen.simps) simp
    from ih(1) have e: "nat (bitlen n - 1) = Suc (nat (bitlen (n div 2) - 1))"
      "nat (bitlen n) = Suc (nat (bitlen (n div 2)))" "nat (bitlen n - 1) = nat (bitlen (n div 2))"
      unfolding b by simp_all
    have "2 * 2 ^ nat (bitlen (n div 2) - 1) \<le> 2 * (n div 2)" using ih(2) by simp
    also have "\<dots> \<le> n" by simp
    finally have lo: "2 ^ nat (bitlen n - 1) \<le> n" unfolding e(1) by simp
    from ih(3) have "n div 2 + 1 \<le> 2 ^ nat (bitlen (n div 2))" by simp
    then have "2 * (n div 2) + 2 \<le> 2 * 2 ^ nat (bitlen (n div 2))" by simp
    moreover have "n \<le> 2 * (n div 2) + 1" by presburger
    ultimately have hi: "n < 2 ^ nat (bitlen n)" unfolding e(2) by simp
    from b ih(1) lo hi show ?thesis by simp
  qed
qed


lemma floor_log2_bounds:
  assumes "0 < m"
  shows "powz 2 (floor_log2 m) \<le> m" and "m < powz 2 (floor_log2 m + 1)"
proof -
  obtain p d where pd: "quotient_of m = (p, d)" by (cases "quotient_of m")
  then have d: "0 < d" and m: "m = of_int p / of_int d"
    by (simp_all add: quotient_of_denom_pos quotient_of_div)
  from assms m d have p: "0 < p" by (simp add: zero_less_divide_iff)
  define a where "a = bitlen p"
  define b where "b = bitlen d"
  from bitlen_bounds [OF p] have a: "1 \<le> a" "2 ^ nat (a - 1) \<le> p" "p < 2 ^ nat a"
    by (simp_all add: a_def)
  from bitlen_bounds [OF d] have b: "1 \<le> b" "2 ^ nat (b - 1) \<le> d" "d < 2 ^ nat b"
    by (simp_all add: b_def)
  have pa: "(2::rat) powi (a - 1) \<le> of_int p" "of_int p < (2::rat) powi a"
  proof -
    from a(2) have "(of_int (2 ^ nat (a - 1)) :: rat) \<le> of_int p" by (simp only: of_int_le_iff)
    then show "(2::rat) powi (a - 1) \<le> of_int p" using a(1) by (simp add: power_int_def)
    from a(3) have "(of_int p :: rat) < of_int (2 ^ nat a)" by (simp only: of_int_less_iff)
    then show "of_int p < (2::rat) powi a" using a(1) by (simp add: power_int_def)
  qed
  have db: "(2::rat) powi (b - 1) \<le> of_int d" "of_int d < (2::rat) powi b"
  proof -
    from b(2) have "(of_int (2 ^ nat (b - 1)) :: rat) \<le> of_int d" by (simp only: of_int_le_iff)
    then show "(2::rat) powi (b - 1) \<le> of_int d" using b(1) by (simp add: power_int_def)
    from b(3) have "(of_int d :: rat) < of_int (2 ^ nat b)" by (simp only: of_int_less_iff)
    then show "of_int d < (2::rat) powi b" using b(1) by (simp add: power_int_def)
  qed
  have dpos: "(0::rat) < of_int d" using d by simp
  have ppos: "(0::rat) < of_int p" using p by simp
  have lo: "(2::rat) powi (a - b - 1) < m"
  proof -
    have "(2::rat) powi (a - b - 1) * of_int d < 2 powi (a - b - 1) * 2 powi b"
      using db(2) by (simp add: mult_strict_left_mono)
    also have "\<dots> = 2 powi (a - 1)"
      by (simp add: power_int_add [symmetric])
    also have "\<dots> \<le> of_int p" by (rule pa(1))
    finally show ?thesis using dpos by (simp add: m pos_less_divide_eq)
  qed
  have hi: "m < (2::rat) powi (a - b + 1)"
  proof -
    have "of_int p < (2::rat) powi a" by (rule pa(2))
    also have "\<dots> = 2 powi (a - b + 1) * 2 powi (b - 1)"
      by (simp add: power_int_add [symmetric])
    also have "\<dots> \<le> 2 powi (a - b + 1) * of_int d"
      using db(1) by (simp add: mult_left_mono)
    finally show ?thesis using dpos by (simp add: m pos_divide_less_eq)
  qed
  have fl: "floor_log2 m = (if 2 powi (a - b) \<le> m then a - b else a - b - 1)"
    by (simp add: floor_log2_def pd a_def b_def powz_eq_powi Let_def)
  show "powz 2 (floor_log2 m) \<le> m"
    using lo by (simp add: fl powz_eq_powi)
  show "m < powz 2 (floor_log2 m + 1)"
    using hi by (auto simp add: fl not_le powz_eq_powi)
qed

lemma round_half_even_error: "\<bar>of_int (round_half_even x) - x\<bar> \<le> 1 / 2"
proof -
  have "of_int \<lfloor>x\<rfloor> \<le> x" "x < of_int \<lfloor>x\<rfloor> + 1" by linarith+
  then show ?thesis
    by (auto simp add: round_half_even_def Let_def abs_le_iff)
qed

lemma round_half_even_mono_int:
  "of_int n \<le> x \<Longrightarrow> n \<le> round_half_even x"
  "x \<le> of_int n \<Longrightarrow> round_half_even x \<le> n"
proof -
  assume "of_int n \<le> x"
  then have "n \<le> \<lfloor>x\<rfloor>" by (simp add: le_floor_iff)
  then show "n \<le> round_half_even x"
    by (auto simp add: round_half_even_def Let_def)
next
  assume h: "x \<le> of_int n"
  have f: "\<lfloor>x\<rfloor> \<le> n" using h by (simp add: floor_le_iff)
  show "round_half_even x \<le> n"
  proof (cases "\<lfloor>x\<rfloor> = n")
    case True
    with h have "x = of_int \<lfloor>x\<rfloor>" by (metis of_int_floor_le order_antisym)
    then have "x - of_int \<lfloor>x\<rfloor> = 0" by simp
    then show ?thesis using True by (simp add: round_half_even_def Let_def)
  next
    case False
    with f have "\<lfloor>x\<rfloor> + 1 \<le> n" by simp
    then show ?thesis by (auto simp add: round_half_even_def Let_def)
  qed
qed


lemma p2_le_iff: "powz 2 a \<le> powz 2 b \<longleftrightarrow> a \<le> b"
proof
  assume h: "powz 2 a \<le> powz 2 b"
  show "a \<le> b"
  proof (rule ccontr)
    assume "\<not> a \<le> b"
    then have "b < a" by simp
    then have "(2::rat) powi b < 2 powi a" by (intro power_int_strict_increasing) simp_all
    with h show False by (simp add: powz_eq_powi)
  qed
next
  assume "a \<le> b"
  then have "(2::rat) powi a \<le> 2 powi b" by (intro power_int_increasing) simp_all
  then show "powz 2 a \<le> powz 2 b" by (simp add: powz_eq_powi)
qed

lemma p2_less_iff: "powz 2 a < powz 2 b \<longleftrightarrow> a < b"
  using p2_le_iff [of b a] by (simp add: not_le [symmetric])

lemma p2_pos: "0 < powz 2 a"
  by (simp add: powz_eq_powi zero_less_power_int)

lemma p2_add: "powz 2 (a + b) = powz 2 a * powz 2 b"
  by (simp add: powz_eq_powi power_int_add)

lemma p2_of_nat: "powz 2 (int k) = of_int (2 ^ k)"
  by (simp add: powz_eq_powi)

lemma p2_half: "powz 2 (a - 1) = powz 2 a / 2"
  by (simp add: powz_eq_powi power_int_diff)

lemma round_double_unfold:
  assumes "0 < m"
  shows "round_double m =
     (if powz 2 1024 \<le> of_int (round_half_even (m / powz 2 (max (floor_log2 m) (- 1022) - 52)))
            * powz 2 (max (floor_log2 m) (- 1022) - 52)
      then None
      else Some (of_int (round_half_even (m / powz 2 (max (floor_log2 m) (- 1022) - 52)))
            * powz 2 (max (floor_log2 m) (- 1022) - 52)))"
  using assms by (simp add: round_double_def Let_def)

lemma round_double_error:
  assumes "0 < m" and "round_double m = Some r"
  shows "\<bar>r - m\<bar> \<le> powz 2 (max (floor_log2 m) (- 1022) - 53)"
proof -
  define e where "e = max (floor_log2 m) (- 1022)"
  define q where "q = powz 2 (e - 52)"
  define n where "n = round_half_even (m / q)"
  have qpos: "0 < q" by (simp add: q_def p2_pos)
  from assms have r: "r = of_int n * q"
    by (simp add: round_double_unfold e_def q_def n_def split: if_splits)
  have "\<bar>of_int n - m / q\<bar> \<le> 1 / 2" unfolding n_def by (rule round_half_even_error)
  then have "\<bar>of_int n - m / q\<bar> * q \<le> 1 / 2 * q" using qpos by (simp add: mult_right_mono)
  moreover have "\<bar>of_int n - m / q\<bar> * q = \<bar>of_int n * q - m\<bar>"
  proof -
    have "(of_int n - m / q) * q = of_int n * q - m"
      using qpos by (simp add: left_diff_distrib)
    then have "\<bar>of_int n * q - m\<bar> = \<bar>of_int n - m / q\<bar> * \<bar>q\<bar>"
      by (simp only: abs_mult [symmetric])
    with qpos show ?thesis by simp
  qed
  moreover have "1 / 2 * q = powz 2 (e - 53)"
    using p2_half [of "e - 52"] by (simp add: q_def)
  ultimately show ?thesis by (simp add: r e_def)
qed

lemma floor_log2_ge:
  assumes "powz 2 a \<le> m"
  shows "a \<le> floor_log2 m"
proof -
  from assms have m: "0 < m" using p2_pos [of a] by linarith
  from floor_log2_bounds(2) [OF m] assms have "powz 2 a < powz 2 (floor_log2 m + 1)"
    by linarith
  then show ?thesis by (simp add: p2_less_iff)
qed

lemma floor_log2_less:
  assumes "0 < m" and "m < powz 2 a"
  shows "floor_log2 m < a"
proof -
  from floor_log2_bounds(1) [OF assms(1)] assms(2) have "powz 2 (floor_log2 m) < powz 2 a"
    by linarith
  then show ?thesis by (simp add: p2_less_iff)
qed

lemma round_double_normal_error:
  assumes "powz 2 (- 1022) \<le> m" and "round_double m = Some r"
  shows "\<bar>r - m\<bar> \<le> m * powz 2 (- 53)"
proof -
  from assms(1) have m: "0 < m" using p2_pos [of "- 1022"] by linarith
  from floor_log2_ge [OF assms(1)] have e: "max (floor_log2 m) (- 1022) = floor_log2 m" by simp
  have "\<bar>r - m\<bar> \<le> powz 2 (floor_log2 m - 53)"
    using round_double_error [OF m assms(2)] by (simp add: e)
  also have "\<dots> = powz 2 (floor_log2 m) * powz 2 (- 53)"
    using p2_add [of "floor_log2 m" "- 53"] by simp
  also have "\<dots> \<le> m * powz 2 (- 53)"
    using floor_log2_bounds(1) [OF m] p2_pos [of "- 53"] by (simp add: mult_right_mono)
  finally show ?thesis .
qed

lemma round_double_Some:
  assumes "0 < m" and "m < powz 2 1023"
  shows "\<exists>r. round_double m = Some r"
proof -
  define e where "e = max (floor_log2 m) (- 1022)"
  define q where "q = powz 2 (e - 52)"
  define n where "n = round_half_even (m / q)"
  have qpos: "0 < q" by (simp add: q_def p2_pos)
  from floor_log2_less [OF assms] have e: "e \<le> 1022" "floor_log2 m \<le> e"
    by (simp_all add: e_def)
  have q53: "powz 2 (e + 1) = powz 2 (int 53) * q"
    using p2_add [of 53 "e - 52"] by (simp add: q_def add.commute)
  have "m < powz 2 (floor_log2 m + 1)" by (rule floor_log2_bounds(2) [OF assms(1)])
  also have "\<dots> \<le> powz 2 (e + 1)" using e(2) by (simp add: p2_le_iff)
  finally have "m / q \<le> powz 2 (int 53)" using qpos by (simp add: q53 pos_divide_le_eq)
  then have "m / q \<le> of_int (2 ^ 53)" by (simp only: p2_of_nat)
  then have "n \<le> 2 ^ 53" unfolding n_def by (rule round_half_even_mono_int(2))
  then have "(of_int n :: rat) \<le> of_int (2 ^ 53)" by (simp only: of_int_le_iff)
  then have "of_int n \<le> powz 2 (int 53)" by (simp only: p2_of_nat)
  then have "of_int n * q \<le> powz 2 (int 53) * q" using qpos by (simp add: mult_right_mono)
  also have "\<dots> = powz 2 (e + 1)" by (simp only: q53)
  also have "\<dots> < powz 2 1024" using e(1) by (simp add: p2_less_iff)
  finally have "\<not> powz 2 1024 \<le> of_int n * q" by simp
  then show ?thesis
    using assms(1) by (simp add: round_double_unfold e_def q_def n_def)
qed

lemma round_double_overflow:
  assumes "powz 2 1024 \<le> m"
  shows "round_double m = None"
proof -
  from assms have m: "0 < m" using p2_pos [of 1024] by linarith
  define e where "e = floor_log2 m"
  define q where "q = powz 2 (e - 52)"
  define n where "n = round_half_even (m / q)"
  have qpos: "0 < q" by (simp add: q_def p2_pos)
  from floor_log2_ge [OF assms] have e: "1024 \<le> e" "max (floor_log2 m) (- 1022) = e"
    by (simp_all add: e_def)
  have q52: "powz 2 (int 52) * q = powz 2 e"
    using p2_add [of 52 "e - 52"] by (simp add: q_def)
  have "powz 2 e \<le> m" unfolding e_def by (rule floor_log2_bounds(1) [OF m])
  then have "powz 2 (int 52) \<le> m / q" using qpos by (simp add: q52 [symmetric] pos_le_divide_eq)
  then have "of_int (2 ^ 52) \<le> m / q" by (simp only: p2_of_nat)
  then have "2 ^ 52 \<le> n" unfolding n_def by (rule round_half_even_mono_int(1))
  then have "(of_int (2 ^ 52) :: rat) \<le> of_int n" by (simp only: of_int_le_iff)
  then have "powz 2 (int 52) \<le> of_int n" by (simp only: p2_of_nat)
  then have "powz 2 (int 52) * q \<le> of_int n * q" using qpos by (simp add: mult_right_mono)
  moreover have "powz 2 1024 \<le> powz 2 e" using e(1) by (simp add: p2_le_iff)
  ultimately have "powz 2 1024 \<le> of_int n * q" unfolding q52 by linarith
  then show ?thesis
    using m by (simp add: round_double_unfold e(2) q_def n_def)
qed

lemma p2_zero: "powz 2 0 = 1"
  by (simp add: powz_eq_powi)

lemma p2_inverse: "powz 2 (- a) = 1 / powz 2 a"
  using p2_add [of a "- a"] p2_pos [of a] by (simp add: p2_zero field_simps)

lemma u_val: "powz 2 (- 53) = 1 / 9007199254740992"
  by (simp add: powz_eq_powi power_int_minus)

lemma p2_51: "powz 2 (- 51) = 4 * powz 2 (- 53)"
  using p2_add [of 2 "- 53"] by (simp add: powz_eq_powi [of 2 2])

lemma reciprocal_twice:
  assumes lo: "powz 2 (- 1021) \<le> r" and hi: "r \<le> powz 2 1021"
  shows "\<exists>y z. round_double (1 / r) = Some y \<and> 0 < y \<and> round_double (1 / y) = Some z
           \<and> \<bar>z - r\<bar> \<le> r * powz 2 (- 51)"
proof -
  define u :: rat where "u = powz 2 (- 53)"
  have u: "0 < u" "u \<le> 1 / 2" by (simp_all add: u_def u_val)
  from lo have r: "0 < r" using p2_pos [of "- 1021"] by linarith
  define a where "a = 1 / r"
  have a: "0 < a" "a * r = 1" using r by (simp_all add: a_def)
  have a_lo: "powz 2 (- 1021) \<le> a"
  proof -
    have "1 / powz 2 1021 \<le> 1 / r" using hi r by (simp add: frac_le)
    then show ?thesis by (simp add: a_def p2_inverse)
  qed
  have a_hi: "a \<le> powz 2 1021"
  proof -
    have "1 / r \<le> 1 / powz 2 (- 1021)" using lo p2_pos [of "- 1021"] by (simp add: frac_le)
    then show ?thesis using p2_inverse [of 1021] p2_pos [of 1021] by (simp add: a_def)
  qed
  have "powz 2 (- 1022) \<le> powz 2 (- 1021)" "powz 2 1021 < powz 2 1023"
    by (simp_all add: p2_le_iff p2_less_iff)
  with a_lo a_hi have a_rng: "powz 2 (- 1022) \<le> a" "a < powz 2 1023" by linarith+
  from round_double_Some [OF a(1) a_rng(2)] obtain y where y: "round_double a = Some y" by blast
  from round_double_normal_error [OF a_rng(1) y] have ey: "\<bar>y - a\<bar> \<le> a * u" by (simp add: u_def)
  have au: "a * u \<le> a / 2" using mult_left_mono [OF u(2), of a] a(1) by simp
  from ey have ey': "y - a \<le> a * u" "a - y \<le> a * u" by (simp_all add: abs_le_iff)
  from au ey' a(1) have y_rng: "a / 2 \<le> y" "y \<le> 2 * a" by linarith+
  with a(1) have ypos: "0 < y" by linarith
  define b where "b = 1 / y"
  have b: "0 < b" "b * y = 1" using ypos by (simp_all add: b_def)
  have b_hi: "b \<le> 2 * r"
  proof -
    have "1 / y \<le> 1 / (a / 2)" using y_rng(1) a(1) by (intro frac_le) simp_all
    then show ?thesis using r by (simp add: b_def a_def)
  qed
  have b_lo: "r / 2 \<le> b"
  proof -
    have "1 / (2 * a) \<le> 1 / y" using y_rng(2) ypos by (intro frac_le) simp_all
    then show ?thesis using r by (simp add: b_def a_def)
  qed
  have "powz 2 (- 1022) = powz 2 (- 1021) / 2" using p2_half [of "- 1021"] by simp
  with lo b_lo have b_rng1: "powz 2 (- 1022) \<le> b" by linarith
  have "powz 2 1022 = 2 * powz 2 1021" using p2_half [of 1022] by simp
  moreover have "powz 2 1022 < powz 2 1023" by (simp add: p2_less_iff)
  ultimately have b_rng2: "b < powz 2 1023" using hi b_hi by linarith
  from round_double_Some [OF b(1) b_rng2] obtain z where z: "round_double b = Some z" by blast
  from round_double_normal_error [OF b_rng1 z] have ez: "\<bar>z - b\<bar> \<le> b * u" by (simp add: u_def)
  have br: "\<bar>b - r\<bar> \<le> b * u"
  proof -
    have "b - r = b * (1 - r * y)" using b(2) by (simp add: algebra_simps)
    moreover have "1 - r * y = r * (a - y)" using a(2) by (simp add: algebra_simps)
    ultimately have "\<bar>b - r\<bar> = b * (r * \<bar>a - y\<bar>)"
      using b(1) r by (simp add: abs_mult)
    also have "\<bar>a - y\<bar> = \<bar>y - a\<bar>" by (simp add: abs_minus_commute)
    also have "b * (r * \<bar>y - a\<bar>) \<le> b * (r * (a * u))"
      using ey b(1) r by (intro mult_left_mono) simp_all
    also have "\<dots> = b * u" using a(2) by (simp add: algebra_simps)
    finally show ?thesis .
  qed
  have "\<bar>z - r\<bar> \<le> \<bar>z - b\<bar> + \<bar>b - r\<bar>" by simp
  also have "\<dots> \<le> 2 * (b * u)" using ez br by simp
  also have "\<dots> \<le> 2 * ((2 * r) * u)" using b_hi u(1) by (simp add: mult_right_mono)
  also have "\<dots> = r * powz 2 (- 51)" by (simp add: p2_51 u_def)
  finally have "\<bar>z - r\<bar> \<le> r * powz 2 (- 51)" .
  with y z ypos show ?thesis by (auto simp add: a_def b_def)
qed

subsection \<open>The handlers\<close>

lemma fetched_system_eval:
  "fetched_system =
     \<lparr>current =
        \<lparr>inputSourceCurrency_value = ''100'',
         selectSourceCurrency_value = ''USD'',
         selectTargetCurrency_value = ''PHP'',
         imageSourceCurrency_src = [],
         imageTargetCurrency_src = [],
         exchangeRateText_textContent = ''100 USD '' @ [CHR 0x0A] @ ''    = 5,600 PHP'',
         isFetching = True,
         conversionRate = Num (Finite False 56),
         sourceCurrentValue = Finite False 100,
         targetCurrentValue = Str ''5600.00''\<rparr>,
      pending = []\<rparr>"
  by code_simp

lemma updateExchangeRate_frame [simp]:
  "isFetching (updateExchangeRate s) = isFetching s"
  "conversionRate (updateExchangeRate s) = conversionRate s"
  "selectSourceCurrency_value (updateExchangeRate s) = selectSourceCurrency_value s"
  "selectTargetCurrency_value (updateExchangeRate s) = selectTargetCurrency_value s"
  "inputSourceCurrency_value (updateExchangeRate s) = inputSourceCurrency_value s"
  "imageSourceCurrency_src (updateExchangeRate s) = imageSourceCurrency_src s"
  "imageTargetCurrency_src (updateExchangeRate s) = imageTargetCurrency_src s"
  by (simp_all add: updateExchangeRate_def Let_def)

lemma updateExchangeRate_amounts:
  "sourceCurrentValue (updateExchangeRate s) = or_zero (parseFloat (inputSourceCurrency_value s))"
  "targetCurrentValue (updateExchangeRate s) =
     Str (toFixed (js_mul (or_zero (parseFloat (inputSourceCurrency_value s)))
                          (ToNumber (conversionRate s))) 2)"
  by (simp_all add: updateExchangeRate_def Let_def)

lemma changeFlag_frame [simp]:
  "isFetching (changeFlag tbl sel s) = isFetching s"
  "conversionRate (changeFlag tbl sel s) = conversionRate s"
  "selectSourceCurrency_value (changeFlag tbl sel s) = selectSourceCurrency_value s"
  "selectTargetCurrency_value (changeFlag tbl sel s) = selectTargetCurrency_value s"
  "inputSourceCurrency_value (changeFlag tbl sel s) = inputSourceCurrency_value s"
  "sourceCurrentValue (changeFlag tbl sel s) = sourceCurrentValue s"
  "targetCurrentValue (changeFlag tbl sel s) = targetCurrentValue s"
  "exchangeRateText_textContent (changeFlag tbl sel s) = exchangeRateText_textContent s"
  by (simp_all add: changeFlag_def Let_def split: option.split)

lemma Number_toString_zero: "Number_toString (Finite False 0) = ''0''"
  by (simp add: Number_toString_def)

lemma parseFloat_zero: "parseFloat ''0'' = Finite False 0"
  by code_simp

text \<open>
  Claim C6. Whatever the state before, choosing a currency in either select clears
  \<open>isFetching\<close> and resets the input amount to 0: the input's value becomes the string
  \<open>0\<close> and \<open>sourceCurrentValue\<close> the number 0.
\<close>

theorem change_invalidates_and_resets:
  "isFetching (current (fst (step tbl (Change sel code) st))) = False
   \<and> inputSourceCurrency_value (current (fst (step tbl (Change sel code) st))) = ''0''
   \<and> sourceCurrentValue (current (fst (step tbl (Change sel code) st))) = Finite False 0"
  by (simp add: select_change_def updateExchangeRate_amounts Number_toString_zero
        parseFloat_zero or_zero_def)

text \<open>
  Claim C7. When the input's value compares \<open><= 0\<close> (as JavaScript coerces it; a blank
  input is 0), \<open>handleConvert\<close> shows the "valid amount" alert and stops: nothing is
  fetched, no request becomes outstanding, and the state is unchanged.
\<close>

theorem convert_rejects_nonpositive:
  assumes "js_le (StringToNumber (inputSourceCurrency_value (current st))) (Finite False 0)"
  shows "step tbl (Convert onLine) st = (st, [Alert ''Please enter a valid amount.''])"
  using assms by (simp add: handleConvert_call_def)

lemma StringToNumber_blank: "StringToNumber [] = Finite False 0"
  by (simp add: StringToNumber_def trim_def)

theorem convert_rejects_nonpositive_witness:
  "js_le (StringToNumber (inputSourceCurrency_value (current initial_system))) (Finite False 0)
   \<and> inputSourceCurrency_value (current initial_system) = []
   \<and> step example_flags (Convert True) initial_system =
       (initial_system, [Alert ''Please enter a valid amount.''])"
proof -
  have h: "js_le (StringToNumber (inputSourceCurrency_value (current initial_system))) (Finite False 0)"
    by (simp add: initial_system_def initial_page_def StringToNumber_blank js_le_def signed_def)
  from convert_rejects_nonpositive [OF h, of example_flags True] h show ?thesis
    by (simp add: initial_system_def initial_page_def)
qed

text \<open>
  A request stays outstanding, at the place where it was recorded, through every event
  that settles no request: only \<open>Settle\<close> removes from \<open>pending\<close>, and
  \<open>handleConvert\<close> appends to it.
\<close>

lemma step_keeps_pending:
  assumes "\<not> is_settle e"
  shows "\<exists>ys. pending (fst (step tbl e st)) = pending st @ ys"
  using assms by (cases e) (simp_all add: split_beta)

lemma run_keeps_pending:
  assumes "\<forall>e\<in>set es. \<not> is_settle e"
  shows "\<exists>ys. pending (fst (run tbl es st)) = pending st @ ys"
  using assms
proof (induction es arbitrary: st)
  case Nil
  then show ?case by simp
next
  case (Cons e es)
  from Cons.prems have "\<not> is_settle e" and r: "\<forall>e\<in>set es. \<not> is_settle e" by simp_all
  from step_keeps_pending [OF this(1), of tbl st]
  obtain ys where ys: "pending (fst (step tbl e st)) = pending st @ ys" by blast
  from Cons.IH [OF r, of "fst (step tbl e st)"]
  obtain zs where "pending (fst (run tbl es (fst (step tbl e st)))) = pending (fst (step tbl e st)) @ zs"
    by blast
  with ys have "pending (fst (run tbl (e # es) st)) = pending st @ (ys @ zs)"
    by (simp add: split_beta)
  then show ?case by blast
qed

lemma convert_records_selection:
  assumes "pending (fst (step tbl (Convert onLine) st)) = pending st @ [(S1, T1)]"
  shows "S1 = selectSourceCurrency_value (current st)"
    and "T1 = selectTargetCurrency_value (current st)"
    and "snd (step tbl (Convert onLine) st) = [Fetch (request_url S1 T1)]"
  using assms by (simp_all add: handleConvert_call_def split: if_splits)

lemma settle_stores_response:
  assumes "i < length (pending st)"
  shows "conversionRate (current (fst (step tbl (Settle i (Data v) onLine) st))) = v"
    and "isFetching (current (fst (step tbl (Settle i (Data v) onLine) st)))"
    and "selectSourceCurrency_value (current (fst (step tbl (Settle i (Data v) onLine) st)))
           = selectSourceCurrency_value (current st)"
    and "selectTargetCurrency_value (current (fst (step tbl (Settle i (Data v) onLine) st)))
           = selectTargetCurrency_value (current st)"
    and "pending (fst (step tbl (Settle i (Data v) onLine) st))
           = take i (pending st) @ drop (Suc i) (pending st)"
    and "snd (step tbl (Settle i (Data v) onLine) st) = []"
  using assms by (simp_all add: handleConvert_resume_def)

text \<open>
  Claim C9. In every state and for every outstanding request, whatever pair it was
  issued for and whatever pair is selected now, a response that arrives with a body
  makes the continuation store the response's rate and set \<open>isFetching\<close>; the
  selection stays as it is, and nothing compares it with the request's pair. In
  particular: when \<open>handleConvert\<close> issues a request, it is for the pair
  \<open>(S1, T1)\<close> selected at that moment; after any events that settle no request
  (changes of either select, swaps, typing, further conversions) the request is still
  outstanding for \<open>(S1, T1)\<close>, and its response, arriving with a body, is stored as
  the rate of whatever pair is selected by then, with \<open>isFetching\<close> set.
\<close>

theorem stale_response_overwrites:
  "(\<forall>i. i < length (pending st) \<longrightarrow>
       conversionRate (current (fst (step tbl (Settle i (Data v) onLine) st))) = v
     \<and> isFetching (current (fst (step tbl (Settle i (Data v) onLine) st)))
     \<and> selectSourceCurrency_value (current (fst (step tbl (Settle i (Data v) onLine) st)))
         = selectSourceCurrency_value (current st)
     \<and> selectTargetCurrency_value (current (fst (step tbl (Settle i (Data v) onLine) st)))
         = selectTargetCurrency_value (current st)
     \<and> pending (fst (step tbl (Settle i (Data v) onLine) st))
         = take i (pending st) @ drop (Suc i) (pending st)
     \<and> snd (step tbl (Settle i (Data v) onLine) st) = [])
   \<and> (\<forall>es S1 T1.
         pending (fst (step tbl (Convert onL) st)) = pending st @ [(S1, T1)]
         \<and> (\<forall>e\<in>set es. \<not> is_settle e) \<longrightarrow>
         (let st2 = fst (run tbl es (fst (step tbl (Convert onL) st)));
              st3 = fst (step tbl (Settle (length (pending st)) (Data v) onLine) st2)
          in S1 = selectSourceCurrency_value (current st)
           \<and> T1 = selectTargetCurrency_value (current st)
           \<and> snd (step tbl (Convert onL) st) = [Fetch (request_url S1 T1)]
           \<and> length (pending st) < length (pending st2)
           \<and> pending st2 ! length (pending st) = (S1, T1)
           \<and> conversionRate (current st3) = v
           \<and> isFetching (current st3)
           \<and> selectSourceCurrency_value (current st3) = selectSourceCurrency_value (current st2)
           \<and> selectTargetCurrency_value (current st3) = selectTargetCurrency_value (current st2)))"
proof -
  have general: "conversionRate (current (fst (step tbl (Settle i (Data v) onLine) st))) = v
     \<and> isFetching (current (fst (step tbl (Settle i (Data v) onLine) st)))
     \<and> selectSourceCurrency_value (current (fst (step tbl (Settle i (Data v) onLine) st)))
         = selectSourceCurrency_value (current st)
     \<and> selectTargetCurrency_value (current (fst (step tbl (Settle i (Data v) onLine) st)))
         = selectTargetCurrency_value (current st)
     \<and> pending (fst (step tbl (Settle i (Data v) onLine) st))
         = take i (pending st) @ drop (Suc i) (pending st)
     \<and> snd (step tbl (Settle i (Data v) onLine) st) = []"
    if i: "i < length (pending st)" for i
    using settle_stores_response [OF i, of tbl v onLine] by blast
  have trace: "let st2 = fst (run tbl es (fst (step tbl (Convert onL) st)));
              st3 = fst (step tbl (Settle (length (pending st)) (Data v) onLine) st2)
          in S1 = selectSourceCurrency_value (current st)
           \<and> T1 = selectTargetCurrency_value (current st)
           \<and> snd (step tbl (Convert onL) st) = [Fetch (request_url S1 T1)]
           \<and> length (pending st) < length (pending st2)
           \<and> pending st2 ! length (pending st) = (S1, T1)
           \<and> conversionRate (current st3) = v
           \<and> isFetching (current st3)
           \<and> selectSourceCurrency_value (current st3) = selectSourceCurrency_value (current st2)
           \<and> selectTargetCurrency_value (current st3) = selectTargetCurrency_value (current st2)"
    if h: "pending (fst (step tbl (Convert onL) st)) = pending st @ [(S1, T1)]
             \<and> (\<forall>e\<in>set es. \<not> is_settle e)" for es S1 T1
  proof -
    define st2 where "st2 = fst (run tbl es (fst (step tbl (Convert onL) st)))"
    from h have p: "pending (fst (step tbl (Convert onL) st)) = pending st @ [(S1, T1)]"
      and ns: "\<forall>e\<in>set es. \<not> is_settle e" by blast+
    from run_keeps_pending [OF ns, of tbl "fst (step tbl (Convert onL) st)"] p
    obtain ys where ys: "pending st2 = pending st @ (S1, T1) # ys"
      by (auto simp add: st2_def)
    then have l: "length (pending st) < length (pending st2)"
      and n: "pending st2 ! length (pending st) = (S1, T1)"
      by simp_all
    note c = convert_records_selection [OF p]
    note s = settle_stores_response [OF l, of tbl v onLine]
    from c l n s(1-4) show ?thesis
      unfolding Let_def st2_def by blast
  qed
  show ?thesis
  proof (rule conjI, goal_cases)
    case 1
    show ?case using general by blast
  next
    case 2
    show ?case using trace by blast
  qed
qed

lemma typed_system_eval:
  "fst (step example_flags (Input ''100'') initial_system) =
     \<lparr>current = initial_page ''100'' [] [] [], pending = []\<rparr>"
  by (simp add: initial_system_def initial_page_def inputSourceCurrency_input_def)

lemma StringToNumber_100: "StringToNumber ''100'' = Finite False 100"
  by code_simp

lemma reselected_system_eval:
  "fst (run example_flags
          [Change SelectSourceCurrency ''EUR'', Change SelectTargetCurrency ''JPY'', Input ''7'']
          (fst (step example_flags (Convert True)
                 \<lparr>current = initial_page ''100'' [] [] [], pending = []\<rparr>))) =
     \<lparr>current =
        \<lparr>inputSourceCurrency_value = ''7'',
         selectSourceCurrency_value = ''EUR'',
         selectTargetCurrency_value = ''JPY'',
         imageSourceCurrency_src = ''https://flagcdn.com/w640/eu.png'',
         imageTargetCurrency_src = ''https://flagcdn.com/w640/jp.png'',
         exchangeRateText_textContent = ''0 EUR '' @ [CHR 0x0A] @ ''    = 0 JPY'',
         isFetching = False,
         conversionRate = Num (Finite False 0),
         sourceCurrentValue = Finite False 0,
         targetCurrentValue = Str ''0.00''\<rparr>,
      pending = [(''USD'', ''PHP'')]\<rparr>"
  by code_simp

theorem stale_response_overwrites_witness:
  "(let st = fst (step example_flags (Input ''100'') initial_system);
        st1 = fst (step example_flags (Convert True) st);
        st2 = fst (run example_flags
                [Change SelectSourceCurrency ''EUR'', Change SelectTargetCurrency ''JPY'', Input ''7'']
                st1);
        st3 = fst (step example_flags (Settle 0 (Data (Num (Finite False 56))) True) st2)
    in pending st = []
     \<and> pending st1 = [(''USD'', ''PHP'')]
     \<and> pending st2 = [(''USD'', ''PHP'')]
     \<and> selectSourceCurrency_value (current st2) = ''EUR''
     \<and> selectTargetCurrency_value (current st2) = ''JPY''
     \<and> \<not> isFetching (current st2)
     \<and> conversionRate (current st3) = Num (Finite False 56)
     \<and> isFetching (current st3)
     \<and> selectSourceCurrency_value (current st3) = ''EUR''
     \<and> selectTargetCurrency_value (current st3) = ''JPY''
     \<and> pending st3 = [])"
proof -
  define st where "st = \<lparr>current = initial_page ''100'' [] [] [], pending = []\<rparr>"
  define es where "es = [Change SelectSourceCurrency ''EUR'', Change SelectTargetCurrency ''JPY'', Input ''7'']"
  define st2 where "st2 = fst (run example_flags es (fst (step example_flags (Convert True) st)))"
  have p0: "pending st = []" by (simp add: st_def)
  have p1: "pending (fst (step example_flags (Convert True) st)) = pending st @ [(''USD'', ''PHP'')]"
    by (simp add: st_def initial_page_def handleConvert_call_def StringToNumber_100 js_le_def signed_def)
  have ns: "\<forall>e\<in>set es. \<not> is_settle e" by (simp add: es_def)
  have e2: "pending st2 = [(''USD'', ''PHP'')]"
    "selectSourceCurrency_value (current st2) = ''EUR''"
    "selectTargetCurrency_value (current st2) = ''JPY''"
    "\<not> isFetching (current st2)"
    unfolding st2_def es_def st_def reselected_system_eval by simp_all
  have i: "0 < length (pending st2)" by (simp add: e2)
  note a = stale_response_overwrites [where st = st2 and tbl = example_flags
      and v = "Num (Finite False 56)" and onLine = True and onL = True,
      THEN conjunct1, rule_format, OF i]
  note b = stale_response_overwrites [where st = st and tbl = example_flags
      and v = "Num (Finite False 56)" and onLine = True and onL = True,
      THEN conjunct2, rule_format, OF conjI [OF p1 ns]]
  from b have b': "conversionRate (current (fst (step example_flags (Settle 0 (Data (Num (Finite False 56))) True) st2)))
        = Num (Finite False 56)"
    unfolding Let_def st2_def [symmetric] p0 list.size(3) by blast
  from a e2 have a': "isFetching (current (fst (step example_flags (Settle 0 (Data (Num (Finite False 56))) True) st2)))"
    "selectSourceCurrency_value (current (fst (step example_flags (Settle 0 (Data (Num (Finite False 56))) True) st2))) = ''EUR''"
    "selectTargetCurrency_value (current (fst (step example_flags (Settle 0 (Data (Num (Finite False 56))) True) st2))) = ''JPY''"
    "pending (fst (step example_flags (Settle 0 (Data (Num (Finite False 56))) True) st2)) = []"
    by (simp_all del: step.simps)
  from p1 p0 have p1': "pending (fst (step example_flags (Convert True) st)) = [(''USD'', ''PHP'')]"
    by simp
  from p0 p1' e2 b' a' show ?thesis
    unfolding Let_def typed_system_eval st_def [symmetric] es_def [symmetric] st2_def [symmetric]
    by blast
qed

text \<open>
  A state with \<open>isFetching\<close> cleared keeps the flag cleared and the stored rate as it is
  under every event but a response that arrives with a body.
\<close>

lemma step_keeps_invalid_rate:
  assumes "\<not> isFetching (current st)" and "\<not> is_rate_response e"
  shows "\<not> isFetching (current (fst (step tbl e st)))
       \<and> conversionRate (current (fst (step tbl e st))) = conversionRate (current st)"
proof (cases e)
  case Swap
  with assms show ?thesis by (simp add: buttonSwap_click_def Let_def)
next
  case (Input v)
  with assms show ?thesis by (simp add: inputSourceCurrency_input_def Let_def)
next
  case (Convert onLine)
  with assms show ?thesis by (simp add: handleConvert_call_def)
next
  case (Change sel code)
  with assms show ?thesis by (simp add: select_change_def select_option_def split: select_id.split)
next
  case (Settle i r onLine)
  with assms show ?thesis by (cases r) (simp_all add: handleConvert_resume_def)
qed

lemma run_keeps_invalid_rate:
  assumes "\<not> isFetching (current st)" and "\<forall>e\<in>set es. \<not> is_rate_response e"
  shows "\<not> isFetching (current (fst (run tbl es st)))
       \<and> conversionRate (current (fst (run tbl es st))) = conversionRate (current st)"
  using assms
proof (induction es arbitrary: st)
  case Nil
  then show ?case by simp
next
  case (Cons e es)
  from Cons.prems have a: "\<not> isFetching (current (fst (step tbl e st)))"
    and b: "conversionRate (current (fst (step tbl e st))) = conversionRate (current st)"
    using step_keeps_invalid_rate [of st e tbl] by simp_all
  from Cons.prems have c: "\<forall>e\<in>set es. \<not> is_rate_response e" by simp
  from Cons.IH [OF a c] b show ?case
    by (simp add: split_beta)
qed

text \<open>
  Claim C10. Choosing a currency leaves the stored rate \<open>conversionRate\<close> as it was,
  and the stale value stays in place through every later sequence of events that
  contains no response arriving with a body (a swap cannot change it either, since
  \<open>isFetching\<close> is cleared).
\<close>

theorem change_keeps_rate:
  "conversionRate (current (fst (step tbl (Change sel code) st))) = conversionRate (current st)
   \<and> (\<forall>es. (\<forall>e\<in>set es. \<not> is_rate_response e) \<longrightarrow>
         conversionRate (current (fst (run tbl es (fst (step tbl (Change sel code) st)))))
           = conversionRate (current st))"
proof -
  have a: "\<not> isFetching (current (fst (step tbl (Change sel code) st)))"
    and b: "conversionRate (current (fst (step tbl (Change sel code) st))) = conversionRate (current st)"
    by (simp_all add: select_change_def select_option_def split: select_id.split)
  from run_keeps_invalid_rate [OF a] b show ?thesis by simp
qed

theorem change_keeps_rate_witness:
  "conversionRate (current fetched_system) = Num (Finite False 56)
   \<and> conversionRate (current (fst (step example_flags (Change SelectTargetCurrency ''EUR'') fetched_system)))
       = Num (Finite False 56)
   \<and> conversionRate (current (fst (run example_flags [Input ''7'', Swap, Convert True, Settle 0 Throws True]
        (fst (step example_flags (Change SelectTargetCurrency ''EUR'') fetched_system)))))
       = Num (Finite False 56)"
proof -
  have r: "conversionRate (current fetched_system) = Num (Finite False 56)"
    by (simp add: fetched_system_eval)
  have e: "\<forall>e\<in>set [Input ''7'', Swap, Convert True, Settle 0 Throws True]. \<not> is_rate_response e"
    by simp
  from change_keeps_rate [of example_flags SelectTargetCurrency "''EUR''" fetched_system] e r
  show ?thesis by metis
qed

text \<open>
  Claim C4 at a response the rate service sends for a failed call: an error body,
  which parses but has no \<open>conversion_rate\<close>. The held rate 56 is overwritten by
  \<open>undefined\<close>, \<open>isFetching\<close> stays set, the output amount becomes \<open>NaN\<close>, and the
  status text shows no error.
\<close>

theorem error_body_overwrites_rate:
  "run example_flags [Convert True, Settle 0 (Data Undefined) True] fetched_system =
     (\<lparr>current =
         \<lparr>inputSourceCurrency_value = ''100'',
          selectSourceCurrency_value = ''USD'',
          selectTargetCurrency_value = ''PHP'',
          imageSourceCurrency_src = [],
          imageTargetCurrency_src = [],
          exchangeRateText_textContent = ''100 USD '' @ [CHR 0x0A] @ ''    = NaN PHP'',
          isFetching = True,
          conversionRate = Undefined,
          sourceCurrentValue = Finite False 100,
          targetCurrentValue = Str ''NaN''\<rparr>,
       pending = []\<rparr>,
      [Fetch ''https://v6.exchangerate-api.com/v6/b20b342878a7581b47213640/pair/USD/PHP''])"
  unfolding fetched_system_eval by code_simp

text \<open>
  Claim C5 at the input \<open>-5\<close> typed while a rate of 56 is held: the amount is neither
  rejected nor coerced to 0, and the output amount is \<open>-280.00\<close>.
\<close>

theorem negative_input_negative_output:
  "run example_flags [Input ''-5''] fetched_system =
     (\<lparr>current =
         \<lparr>inputSourceCurrency_value = ''-5'',
          selectSourceCurrency_value = ''USD'',
          selectTargetCurrency_value = ''PHP'',
          imageSourceCurrency_src = [],
          imageTargetCurrency_src = [],
          exchangeRateText_textContent = ''-5 USD '' @ [CHR 0x0A] @ ''    = -280 PHP'',
          isFetching = True,
          conversionRate = Num (Finite False 56),
          sourceCurrentValue = Finite True 5,
          targetCurrentValue = Str ''-280.00''\<rparr>,
       pending = []\<rparr>,
      [])"
  unfolding fetched_system_eval by code_simp

text \<open>
  Claim C3 fails as stated: converting 100 at the rate 56 stores the output amount
  \<open>5600.00\<close>, and \<open>formatCurrency\<close> displays it as \<open>5,600\<close>, without decimals.
\<close>

theorem converted_amount_display_counterexample:
  "sourceCurrentValue (current fetched_system) = Finite False 100
   \<and> conversionRate (current fetched_system) = Num (Finite False 56)
   \<and> targetCurrentValue (current fetched_system) = Str ''5600.00''
   \<and> formatCurrency (targetCurrentValue (current fetched_system)) = ''5,600''
   \<and> formatCurrency (targetCurrentValue (current fetched_system)) \<noteq> ''5,600.00''
   \<and> exchangeRateText_textContent (current fetched_system) =
        ''100 USD '' @ [CHR 0x0A] @ ''    = 5,600 PHP''"
proof -
  have "formatCurrency (Str ''5600.00'') = ''5,600''" by code_simp
  then show ?thesis by (simp add: fetched_system_eval)
qed

text \<open>
  When the awaited request throws (the network fails, or the body is not JSON), the
  \<open>catch\<close> block only replaces the status text and logs: the rate, the flag and both
  amounts stay as they were.
\<close>

lemma thrown_request_keeps_state:
  assumes "i < length (pending st)"
  shows "conversionRate (current (fst (step tbl (Settle i Throws onLine) st))) = conversionRate (current st)
       \<and> isFetching (current (fst (step tbl (Settle i Throws onLine) st))) = isFetching (current st)
       \<and> sourceCurrentValue (current (fst (step tbl (Settle i Throws onLine) st)))
           = sourceCurrentValue (current st)
       \<and> targetCurrentValue (current (fst (step tbl (Settle i Throws onLine) st)))
           = targetCurrentValue (current st)
       \<and> exchangeRateText_textContent (current (fst (step tbl (Settle i Throws onLine) st)))
           = (if onLine then ''Error fetching exchange rate!'' else ''No internet connection!'')
       \<and> snd (step tbl (Settle i Throws onLine) st) = [ConsoleLog ''Error fetching exchange rate!'']"
  using assms by (simp add: handleConvert_resume_def)

subsection \<open>Swapping twice\<close>

lemma swap_fields:
  "selectSourceCurrency_value (buttonSwap_click s) = selectTargetCurrency_value s"
  "selectTargetCurrency_value (buttonSwap_click s) = selectSourceCurrency_value s"
  "isFetching (buttonSwap_click s) = isFetching s"
  "conversionRate (buttonSwap_click s) =
     (if isFetching s then Num (js_div (Finite False 1) (ToNumber (conversionRate s)))
      else conversionRate s)"
  by (simp_all add: buttonSwap_click_def Let_def)

lemma reciprocal_of_double:
  assumes "round_double (1 / r) = Some y" and "0 < r"
  shows "js_div (Finite False 1) (Finite s r) = Finite s y"
  using assms by (simp add: to_double_def)

text \<open>
  Claim C8, amended. With a held rate whose magnitude lies between \<open>2^-1021\<close> and
  \<open>2^1021\<close>, two swaps restore both currency codes exactly and the rate to within the
  relative error \<open>2^-51\<close>; the flag stays set and nothing is fetched.
\<close>

theorem swap_twice_restores:
  assumes "isFetching (current st)"
    and "conversionRate (current st) = Num (Finite s r)"
    and "powz 2 (- 1021) \<le> r" and "r \<le> powz 2 1021"
  shows "selectSourceCurrency_value (current (fst (run tbl [Swap, Swap] st)))
           = selectSourceCurrency_value (current st)
       \<and> selectTargetCurrency_value (current (fst (run tbl [Swap, Swap] st)))
           = selectTargetCurrency_value (current st)
       \<and> (\<exists>r'. conversionRate (current (fst (run tbl [Swap, Swap] st))) = Num (Finite s r')
               \<and> \<bar>r' - r\<bar> \<le> r * powz 2 (- 51))
       \<and> isFetching (current (fst (run tbl [Swap, Swap] st)))
       \<and> snd (run tbl [Swap, Swap] st) = []"
proof -
  from reciprocal_twice [OF assms(3,4)] obtain y z
    where y: "round_double (1 / r) = Some y" "0 < y"
      and z: "round_double (1 / y) = Some z" "\<bar>z - r\<bar> \<le> r * powz 2 (- 51)"
    by blast
  from assms(3) have r: "0 < r" using p2_pos [of "- 1021"] by linarith
  have d1: "js_div (Finite False 1) (Finite s r) = Finite s y"
    by (rule reciprocal_of_double [OF y(1) r])
  have d2: "js_div (Finite False 1) (Finite s y) = Finite s z"
    by (rule reciprocal_of_double [OF z(1) y(2)])
  have "conversionRate (current (fst (run tbl [Swap, Swap] st))) = Num (Finite s z)"
    using assms(1,2) d1 d2 by (simp add: swap_fields del: js_div.simps)
  with z(2) assms(1) show ?thesis
    by (simp add: swap_fields)
qed

lemma rate_56_in_range: "powz 2 (- 1021) \<le> 56" "56 \<le> powz 2 1021"
proof -
  have "powz 2 (- 1021) \<le> powz 2 0" by (simp add: p2_le_iff)
  then show "powz 2 (- 1021) \<le> 56" by (simp add: p2_zero)
  have "powz 2 6 \<le> powz 2 1021" by (simp add: p2_le_iff)
  moreover have "powz 2 6 = 64" by (simp add: powz_eq_powi)
  ultimately show "56 \<le> powz 2 1021" by simp
qed

theorem swap_twice_restores_witness:
  "isFetching (current fetched_system)
   \<and> conversionRate (current fetched_system) = Num (Finite False 56)
   \<and> powz 2 (- 1021) \<le> 56 \<and> 56 \<le> powz 2 1021
   \<and> selectSourceCurrency_value (current (fst (run example_flags [Swap, Swap] fetched_system))) = ''USD''
   \<and> selectTargetCurrency_value (current (fst (run example_flags [Swap, Swap] fetched_system))) = ''PHP''
   \<and> (\<exists>r'. conversionRate (current (fst (run example_flags [Swap, Swap] fetched_system)))
                = Num (Finite False r')
            \<and> \<bar>r' - 56\<bar> \<le> 56 * powz 2 (- 51))"
proof -
  have f: "isFetching (current fetched_system)"
    and r: "conversionRate (current fetched_system) = Num (Finite False 56)"
    and c: "selectSourceCurrency_value (current fetched_system) = ''USD''"
           "selectTargetCurrency_value (current fetched_system) = ''PHP''"
    by (simp_all add: fetched_system_eval)
  note t = swap_twice_restores [OF f r rate_56_in_range, of example_flags]
  from t f r c rate_56_in_range show ?thesis by simp
qed

lemma round_half_even_unique:
  assumes "of_int k \<le> x" and "x < of_int k + 1 / 2"
  shows "round_half_even x = k"
proof -
  from assms have "\<lfloor>x\<rfloor> = k" by (intro floor_unique) simp_all
  with assms show ?thesis by (simp add: round_half_even_def Let_def)
qed

lemma floor_log2_unique:
  assumes "powz 2 a \<le> m" and "m < powz 2 (a + 1)"
  shows "floor_log2 m = a"
proof -
  from assms(1) have m: "0 < m" using p2_pos [of a] by linarith
  from floor_log2_ge [OF assms(1)] floor_log2_less [OF m assms(2)] show ?thesis by simp
qed

lemma max_double_pos: "0 < powz 2 1024 - powz 2 971"
  using p2_less_iff [of 971 1024] by simp

lemma max_double_reciprocal:
  "round_double (1 / (powz 2 1024 - powz 2 971)) = Some (powz 2 (- 1024))"
proof -
  define R where "R = powz 2 1024 - powz 2 971"
  define m where "m = 1 / R"
  have R: "0 < R" unfolding R_def by (rule max_double_pos)
  have m: "0 < m" using R by (simp add: m_def)
  have lo: "powz 2 (- 1024) \<le> m"
  proof -
    have "R \<le> powz 2 1024" using p2_pos [of 971] by (simp add: R_def)
    then have "1 / powz 2 1024 \<le> 1 / R" using R by (intro frac_le) simp_all
    then show ?thesis by (simp add: m_def p2_inverse)
  qed
  have hi: "m < powz 2 (- 1024 + 1)"
  proof -
    have "powz 2 1024 = 2 * powz 2 1023" using p2_half [of 1024] by simp
    moreover have "powz 2 971 < powz 2 1023" by (simp add: p2_less_iff)
    ultimately have "powz 2 1023 < R" by (simp add: R_def)
    then have "1 / R < 1 / powz 2 1023" using p2_pos [of 1023] by (intro frac_less2) simp_all
    then show ?thesis using p2_inverse [of 1023] by (simp add: m_def)
  qed
  have e: "max (floor_log2 m) (- 1022) = - 1022"
    using floor_log2_unique [OF lo hi] by simp
  have Rq: "R * powz 2 (- 1074) = powz 2 (- 50) - powz 2 (- 103)"
    using p2_add [of 1024 "- 1074"] p2_add [of 971 "- 1074"] by (simp add: R_def algebra_simps)
  have x: "m / powz 2 (- 1074) = 1 / (powz 2 (- 50) - powz 2 (- 103))"
    by (simp add: m_def Rq [symmetric])
  define k :: int where "k = 2 ^ 50"
  have n: "round_half_even (m / powz 2 (- 1074)) = k"
    unfolding x k_def by (rule round_half_even_unique) (simp_all add: powz_eq_powi power_int_minus)
  have r: "of_int k * powz 2 (- 1074) = powz 2 (- 1024)"
    unfolding k_def using p2_add [of 50 "- 1074"] p2_of_nat [of 50] by simp
  have "\<not> powz 2 1024 \<le> powz 2 (- 1024)" by (simp add: p2_le_iff)
  then have "round_double m = Some (powz 2 (- 1024))"
    using m by (simp add: round_double_unfold e n r)
  then show ?thesis by (simp add: m_def R_def)
qed

lemma powz_1024_reciprocal_overflows: "round_double (1 / powz 2 (- 1024)) = None"
proof -
  have "1 / powz 2 (- 1024) = powz 2 1024" using p2_inverse [of "- 1024"] by simp
  then show ?thesis by (simp add: round_double_overflow)
qed

text \<open>
  Claim C8 fails as stated: a held rate of \<open>2^1024 - 2^971\<close> (the largest double,
  \<open>1.7976931348623157e308\<close>) becomes \<open>2^-1024\<close> after one swap and \<open>Infinity\<close>
  after two.
\<close>

theorem swap_twice_counterexample:
  "(let st = fst (run example_flags
                [Input ''100'', Convert True,
                 Settle 0 (Data (Num (Finite False (powz 2 1024 - powz 2 971)))) True]
                initial_system)
    in isFetching (current st)
     \<and> conversionRate (current st) = Num (Finite False (powz 2 1024 - powz 2 971))
     \<and> conversionRate (current (fst (run example_flags [Swap] st))) = Num (Finite False (powz 2 (- 1024)))
     \<and> conversionRate (current (fst (run example_flags [Swap, Swap] st))) = Num (Infinite False))"
proof -
  have a: "js_div (Finite False 1) (Finite False (powz 2 1024 - powz 2 971)) = Finite False (powz 2 (- 1024))"
    using max_double_pos by (simp add: to_double_def max_double_reciprocal)
  have b: "js_div (Finite False 1) (Finite False (powz 2 (- 1024))) = Infinite False"
    using p2_pos [of "- 1024"] by (simp add: to_double_def powz_1024_reciprocal_overflows)
  show ?thesis
    using a b
    by (simp add: Let_def initial_system_def initial_page_def inputSourceCurrency_input_def
          handleConvert_call_def handleConvert_resume_def StringToNumber_100 js_le_def signed_def
          swap_fields del: js_div.simps)
qed

subsection \<open>The reciprocal of the rate\<close>

lemma reciprocal_rounds:
  assumes lo: "powz 2 (- 1022) \<le> r" and hi: "r \<le> powz 2 1022"
  shows "\<exists>y. round_double (1 / r) = Some y \<and> 0 < y \<and> \<bar>y - 1 / r\<bar> \<le> (1 / r) * powz 2 (- 53)"
proof -
  define u :: rat where "u = powz 2 (- 53)"
  have u: "0 < u" "u \<le> 1 / 2" by (simp_all add: u_def u_val)
  from lo have r: "0 < r" using p2_pos [of "- 1022"] by linarith
  define a where "a = 1 / r"
  have a: "0 < a" using r by (simp add: a_def)
  have a_lo: "powz 2 (- 1022) \<le> a"
  proof -
    have "1 / powz 2 1022 \<le> 1 / r" using hi r by (simp add: frac_le)
    then show ?thesis by (simp add: a_def p2_inverse)
  qed
  have a_hi: "a \<le> powz 2 1022"
  proof -
    have "1 / r \<le> 1 / powz 2 (- 1022)" using lo p2_pos [of "- 1022"] by (simp add: frac_le)
    then show ?thesis using p2_inverse [of 1022] p2_pos [of 1022] by (simp add: a_def)
  qed
  have "powz 2 1022 < powz 2 1023" by (simp add: p2_less_iff)
  with a_hi have a_hi': "a < powz 2 1023" by linarith
  from round_double_Some [OF a a_hi'] obtain y where y: "round_double a = Some y" by blast
  from round_double_normal_error [OF a_lo y] have ey: "\<bar>y - a\<bar> \<le> a * u" by (simp add: u_def)
  have au: "a * u \<le> a / 2" using mult_left_mono [OF u(2), of a] a by simp
  from ey have "a - y \<le> a * u" by (simp add: abs_le_iff)
  with au a have ypos: "0 < y" by linarith
  from y ypos ey show ?thesis by (auto simp add: a_def u_def)
qed

lemma min_double_reciprocal_overflows: "round_double (1 / powz 2 (- 1074)) = None"
proof -
  have "1 / powz 2 (- 1074) = powz 2 1074" using p2_inverse [of "- 1074"] by simp
  moreover have "powz 2 1024 \<le> powz 2 1074" by (simp add: p2_le_iff)
  ultimately show ?thesis by (simp add: round_double_overflow)
qed

text \<open>
  Claim C2, amended. In every state where \<open>isFetching\<close> holds, the swap handler
  exchanges the two selected currency codes, leaves \<open>isFetching\<close> set, and has no
  effect on the outside: no request is issued and none is added to the outstanding
  ones. The rate \<open>R\<close> is replaced by the JavaScript quotient \<open>1 / R\<close>; when the
  magnitude \<open>r\<close> of \<open>R\<close> lies between \<open>2^-1022\<close> and \<open>2^1022\<close> the new rate is
  a non-zero finite number of the same sign whose magnitude \<open>y\<close> is the reciprocal
  up to one rounding: \<open>|y - 1/r| \<le> (1/r) * 2^-53\<close>.
\<close>

theorem swap_inverts_rate:
  assumes "isFetching (current st)"
  shows "selectSourceCurrency_value (current (fst (step tbl Swap st))) = selectTargetCurrency_value (current st)
       \<and> selectTargetCurrency_value (current (fst (step tbl Swap st))) = selectSourceCurrency_value (current st)
       \<and> conversionRate (current (fst (step tbl Swap st))) =
           Num (js_div (Finite False 1) (ToNumber (conversionRate (current st))))
       \<and> (\<forall>s r. conversionRate (current st) = Num (Finite s r)
                 \<and> powz 2 (- 1022) \<le> r \<and> r \<le> powz 2 1022 \<longrightarrow>
            (\<exists>y. conversionRate (current (fst (step tbl Swap st))) = Num (Finite s y)
                \<and> 0 < y \<and> \<bar>y - 1 / r\<bar> \<le> (1 / r) * powz 2 (- 53)))
       \<and> isFetching (current (fst (step tbl Swap st)))
       \<and> snd (step tbl Swap st) = []
       \<and> pending (fst (step tbl Swap st)) = pending st"
proof -
  have rate: "\<exists>y. conversionRate (current (fst (step tbl Swap st))) = Num (Finite s y)
                \<and> 0 < y \<and> \<bar>y - 1 / r\<bar> \<le> (1 / r) * powz 2 (- 53)"
    if h: "conversionRate (current st) = Num (Finite s r)"
      and lo: "powz 2 (- 1022) \<le> r" and hi: "r \<le> powz 2 1022" for s r
  proof -
    from reciprocal_rounds [OF lo hi] obtain y
      where y: "round_double (1 / r) = Some y" "0 < y" "\<bar>y - 1 / r\<bar> \<le> (1 / r) * powz 2 (- 53)"
      by blast
    from lo have r: "0 < r" using p2_pos [of "- 1022"] by linarith
    have d: "js_div (Finite False 1) (Finite s r) = Finite s y"
      by (rule reciprocal_of_double [OF y(1) r])
    have "conversionRate (current (fst (step tbl Swap st))) = Num (Finite s y)"
      using assms h d by (simp add: swap_fields del: js_div.simps)
    with y(2,3) show ?thesis by blast
  qed
  have rest: "selectSourceCurrency_value (current (fst (step tbl Swap st))) = selectTargetCurrency_value (current st)"
    "selectTargetCurrency_value (current (fst (step tbl Swap st))) = selectSourceCurrency_value (current st)"
    "conversionRate (current (fst (step tbl Swap st))) =
           Num (js_div (Finite False 1) (ToNumber (conversionRate (current st))))"
    "isFetching (current (fst (step tbl Swap st)))"
    "snd (step tbl Swap st) = []"
    "pending (fst (step tbl Swap st)) = pending st"
    using assms by (simp_all add: swap_fields)
  from rate rest show ?thesis by blast
qed

lemma rate_56_in_range_1022: "powz 2 (- 1022) \<le> 56" "56 \<le> powz 2 1022"
proof -
  have "powz 2 (- 1022) \<le> powz 2 (- 1021)" "powz 2 1021 \<le> powz 2 1022"
    by (simp_all add: p2_le_iff)
  with rate_56_in_range show "powz 2 (- 1022) \<le> 56" "56 \<le> powz 2 1022" by linarith+
qed

theorem swap_inverts_rate_witness:
  "isFetching (current fetched_system)
   \<and> conversionRate (current fetched_system) = Num (Finite False 56)
   \<and> powz 2 (- 1022) \<le> 56 \<and> 56 \<le> powz 2 1022
   \<and> selectSourceCurrency_value (current (fst (step example_flags Swap fetched_system))) = ''PHP''
   \<and> selectTargetCurrency_value (current (fst (step example_flags Swap fetched_system))) = ''USD''
   \<and> conversionRate (current (fst (step example_flags Swap fetched_system))) =
        Num (Finite False (2573485501354569 / 144115188075855872))
   \<and> (\<exists>y. conversionRate (current (fst (step example_flags Swap fetched_system))) = Num (Finite False y)
         \<and> 0 < y \<and> \<bar>y - 1 / 56\<bar> \<le> (1 / 56) * powz 2 (- 53))
   \<and> isFetching (current (fst (step example_flags Swap fetched_system)))
   \<and> snd (step example_flags Swap fetched_system) = []"
proof -
  have f: "isFetching (current fetched_system)"
    and r: "conversionRate (current fetched_system) = Num (Finite False 56)"
    and c: "selectSourceCurrency_value (current fetched_system) = ''USD''"
           "selectTargetCurrency_value (current fetched_system) = ''PHP''"
    by (simp_all add: fetched_system_eval)
  have d: "js_div (Finite False 1) (Finite False 56) = Finite False (2573485501354569 / 144115188075855872)"
    by code_simp
  note t = swap_inverts_rate [OF f, of example_flags]
  from t r rate_56_in_range_1022
  have e: "\<exists>y. conversionRate (current (fst (step example_flags Swap fetched_system))) = Num (Finite False y)
         \<and> 0 < y \<and> \<bar>y - 1 / 56\<bar> \<le> (1 / 56) * powz 2 (- 53)"
    by blast
  from t have "conversionRate (current (fst (step example_flags Swap fetched_system))) =
           Num (js_div (Finite False 1) (ToNumber (conversionRate (current fetched_system))))"
    and g: "selectSourceCurrency_value (current (fst (step example_flags Swap fetched_system)))
              = selectTargetCurrency_value (current fetched_system)"
       "selectTargetCurrency_value (current (fst (step example_flags Swap fetched_system)))
              = selectSourceCurrency_value (current fetched_system)"
       "isFetching (current (fst (step example_flags Swap fetched_system)))"
       "snd (step example_flags Swap fetched_system) = []"
    by blast+
  then have v: "conversionRate (current (fst (step example_flags Swap fetched_system))) =
        Num (Finite False (2573485501354569 / 144115188075855872))"
    unfolding r using d by (simp del: js_div.simps)
  from f r rate_56_in_range_1022 g v e c show ?thesis by metis
qed

lemma min_double_is_double: "round_double (powz 2 (- 1074)) = Some (powz 2 (- 1074))"
proof -
  define m where "m = powz 2 (- 1074)"
  have m: "0 < m" by (simp add: m_def p2_pos)
  have "powz 2 (- 1074) \<le> m" "m < powz 2 (- 1074 + 1)"
    by (simp_all add: m_def p2_less_iff)
  then have e: "floor_log2 m = - 1074" by (rule floor_log2_unique)
  have q: "max (floor_log2 m) (- 1022) - 52 = - 1074" by (simp add: e)
  have d: "m / powz 2 (- 1074) = 1" using m by (simp add: m_def)
  have n: "round_half_even (1::rat) = 1"
    using round_half_even_unique [of 1 1] by simp
  have lt: "\<not> powz 2 1024 \<le> powz 2 (- 1074)" by (simp add: p2_le_iff)
  show ?thesis
    unfolding m_def [symmetric] round_double_unfold [OF m] q
    unfolding m_def d [unfolded m_def] n using lt by simp
qed

text \<open>
  Claim C2 fails as stated: with \<open>isFetching\<close> set and the positive rate
  \<open>2^-1074\<close> (the smallest double, \<open>5e-324\<close>) held, one swap leaves \<open>Infinity\<close>
  as the rate, which is not the reciprocal \<open>2^1074\<close>, and \<open>isFetching\<close> stays set.
\<close>

theorem swap_reciprocal_counterexample:
  "(let st = fst (run example_flags
                [Input ''100'', Convert True,
                 Settle 0 (Data (Num (Finite False (powz 2 (- 1074))))) True]
                initial_system)
    in isFetching (current st)
     \<and> conversionRate (current st) = Num (Finite False (powz 2 (- 1074)))
     \<and> 0 < powz 2 (- 1074)
     \<and> round_double (powz 2 (- 1074)) = Some (powz 2 (- 1074))
     \<and> conversionRate (current (fst (step example_flags Swap st))) = Num (Infinite False)
     \<and> isFetching (current (fst (step example_flags Swap st))))"
proof -
  have b: "js_div (Finite False 1) (Finite False (powz 2 (- 1074))) = Infinite False"
    using p2_pos [of "- 1074"] by (simp add: to_double_def min_double_reciprocal_overflows)
  show ?thesis
    using b p2_pos [of "- 1074"] min_double_is_double
    by (simp add: Let_def initial_system_def initial_page_def inputSourceCurrency_input_def
          handleConvert_call_def handleConvert_resume_def StringToNumber_100 js_le_def signed_def
          swap_fields del: js_div.simps)
qed

subsection \<open>Decimal strings\<close>

lemma digit_table:
  "list_all (\<lambda>d. is_digit (digit_char d) \<and> digit_val (digit_char d) = d
                \<and> (digit_char d = CHR ''0'') = (d = 0) \<and> \<not> is_ws (digit_char d)
                \<and> digit_char d \<notin> set ''xXoObB+-.I'') [0..9]"
  by code_simp

lemma digit_char_props:
  assumes "0 \<le> d" and "d \<le> 9"
  shows "is_digit (digit_char d)" and "digit_val (digit_char d) = d"
    and "(digit_char d = CHR ''0'') = (d = 0)" and "\<not> is_ws (digit_char d)"
    and "digit_char d \<notin> set ''xXoObB+-.I''"
proof -
  from assms have "d \<in> set [0..9]" by simp
  with digit_table have "is_digit (digit_char d) \<and> digit_val (digit_char d) = d
                \<and> (digit_char d = CHR ''0'') = (d = 0) \<and> \<not> is_ws (digit_char d)
                \<and> digit_char d \<notin> set ''xXoObB+-.I''"
    unfolding list_all_iff by blast
  then show "is_digit (digit_char d)" and "digit_val (digit_char d) = d"
    and "(digit_char d = CHR ''0'') = (d = 0)" and "\<not> is_ws (digit_char d)"
    and "digit_char d \<notin> set ''xXoObB+-.I''"
    by blast+
qed

lemma digit_char_0: "digit_char 0 = CHR ''0''"
  by code_simp

lemma digits_of_small: "n < 10 \<Longrightarrow> digits_of n = [digit_char n]"
  by (subst digits_of.simps) simp

lemma digits_of_step: "10 \<le> n \<Longrightarrow> digits_of n = digits_of (n div 10) @ [digit_char (n mod 10)]"
  by (subst digits_of.simps) simp

lemma digits_of_all_digits: "0 \<le> n \<Longrightarrow> list_all is_digit (digits_of n)"
proof (induction n rule: digits_of.induct)
  case (1 n)
  show ?case
  proof (cases "n < 10")
    case True
    with "1.prems" show ?thesis by (simp add: digits_of_small digit_char_props)
  next
    case False
    with "1.prems" "1.IH" have "list_all is_digit (digits_of (n div 10))" by simp
    moreover have "is_digit (digit_char (n mod 10))" by (simp add: digit_char_props)
    ultimately show ?thesis using False by (simp add: digits_of_step)
  qed
qed

lemma parse_digits_snoc: "parse_digits (xs @ [c]) = 10 * parse_digits xs + digit_val c"
  by (simp add: parse_digits_def)

lemma parse_digits_of: "0 \<le> n \<Longrightarrow> parse_digits (digits_of n) = n"
proof (induction n rule: digits_of.induct)
  case (1 n)
  show ?case
  proof (cases "n < 10")
    case True
    with "1.prems" show ?thesis by (simp add: digits_of_small parse_digits_def digit_char_props)
  next
    case False
    with "1.prems" "1.IH" have "parse_digits (digits_of (n div 10)) = n div 10" by simp
    then show ?thesis using False
      by (simp add: digits_of_step parse_digits_snoc digit_char_props)
  qed
qed

lemma digits_of_two:
  assumes "10 \<le> n" and "n < 100"
  shows "digits_of n = [digit_char (n div 10), digit_char (n mod 10)]"
  using assms by (simp add: digits_of_step digits_of_small)

lemma digits_of_hundreds:
  assumes "100 \<le> n"
  shows "digits_of n = digits_of (n div 100) @ [digit_char (n mod 100 div 10), digit_char (n mod 10)]"
proof -
  have "n div (10 * 10) = n div 10 div 10" by (rule zdiv_zmult2_eq) simp
  then have a: "n div 10 div 10 = n div 100" by simp
  have "n mod (10 * 10) = 10 * (n div 10 mod 10) + n mod 10" by (rule zmod_zmult2_eq) simp
  then have "n mod 100 div 10 = (10 * (n div 10 mod 10) + n mod 10) div 10" by simp
  also have "\<dots> = n div 10 mod 10" by simp
  finally have b: "n mod 100 div 10 = n div 10 mod 10" .
  from assms have c: "10 \<le> n" "10 \<le> n div 10" by simp_all
  have "digits_of n = digits_of (n div 10) @ [digit_char (n mod 10)]"
    by (rule digits_of_step [OF c(1)])
  also have "digits_of (n div 10) = digits_of (n div 10 div 10) @ [digit_char (n div 10 mod 10)]"
    by (rule digits_of_step [OF c(2)])
  finally show ?thesis by (simp only: a b append_assoc append_Cons append_Nil)
qed

lemma digits_of_not_Nil [simp]: "digits_of n \<noteq> []"
  by (subst digits_of.simps) simp

lemma toFixed_two_digits:
  assumes "0 \<le> n"
  shows "(let ds = digits_of n;
              ds' = (if (2::nat) \<noteq> 0 \<and> length ds \<le> 2
                     then replicate (2 + 1 - length ds) (CHR ''0'') @ ds else ds)
          in take (length ds' - 2) ds' @ ''.'' @ drop (length ds' - 2) ds')
         = digits_of (n div 100) @ ''.'' @ [digit_char (n mod 100 div 10), digit_char (n mod 10)]"
proof -
  consider "n < 10" | "10 \<le> n" "n < 100" | "100 \<le> n" by linarith
  then show ?thesis
  proof cases
    case 1
    with assms have "n div 100 = 0" "n mod 100 div 10 = 0" "n mod 10 = n" by simp_all
    with 1 show ?thesis
      by (simp add: digits_of_small digit_char_0 numeral_2_eq_2 numeral_3_eq_3)
  next
    case 2
    with assms have "n div 100 = 0" "n mod 100 div 10 = n div 10" by simp_all
    with 2 show ?thesis
      by (simp add: digits_of_two digits_of_small [of 0] digit_char_0)
  next
    case 3
    then show ?thesis
      by (simp add: digits_of_hundreds Let_def)
  qed
qed

lemma p10_2: "powz 10 2 = 100"
  by (simp add: powz_eq_powi)

lemma toFixed_2:
  assumes "0 \<le> m" and "m < powz 10 21"
  shows "toFixed (Finite neg m) 2 = (if neg \<and> 0 < m then ''-'' else []) @ fixed2 (round2 m)"
proof -
  define n where "n = \<lfloor>m * 100 + 1 / 2\<rfloor>"
  from assms(1) have n: "0 \<le> n" by (simp add: n_def)
  have "\<lfloor>round2 m * 100\<rfloor> = n" by (simp add: round2_def n_def)
  then have f: "fixed2 (round2 m) =
      digits_of (n div 100) @ ''.'' @ [digit_char (n mod 100 div 10), digit_char (n mod 10)]"
    by (simp add: fixed2_def)
  from assms(2) have "\<not> powz 10 21 \<le> m" by simp
  then show ?thesis
    using toFixed_two_digits [OF n]
    by (simp add: toFixed_def f p10_2 n_def [symmetric] Let_def)
qed

lemma round_double_parts:
  assumes "0 < m" and "round_double m = Some r"
  shows "\<exists>n. 0 \<le> n \<and> n \<le> 2 ^ 53
           \<and> r = of_int n * powz 2 (max (floor_log2 m) (- 1022) - 52)"
proof -
  define e where "e = max (floor_log2 m) (- 1022)"
  define q where "q = powz 2 (e - 52)"
  define n where "n = round_half_even (m / q)"
  have qpos: "0 < q" by (simp add: q_def p2_pos)
  have e: "floor_log2 m \<le> e" by (simp add: e_def)
  from assms have r: "r = of_int n * q"
    by (simp add: round_double_unfold e_def q_def n_def split: if_splits)
  have q53: "powz 2 (e + 1) = powz 2 (int 53) * q"
    using p2_add [of 53 "e - 52"] by (simp add: q_def add.commute)
  have "m < powz 2 (floor_log2 m + 1)" by (rule floor_log2_bounds(2) [OF assms(1)])
  also have "\<dots> \<le> powz 2 (e + 1)" using e by (simp add: p2_le_iff)
  finally have "m / q \<le> powz 2 (int 53)" using qpos by (simp add: q53 pos_divide_le_eq)
  then have "m / q \<le> of_int (2 ^ 53)" by (simp only: p2_of_nat)
  then have hi: "n \<le> 2 ^ 53" unfolding n_def by (rule round_half_even_mono_int(2))
  have "of_int 0 \<le> m / q" using assms(1) qpos by simp
  then have lo: "0 \<le> n" unfolding n_def by (rule round_half_even_mono_int(1))
  from lo hi r show ?thesis unfolding q_def e_def by blast
qed

lemma round_double_nonneg:
  assumes "0 \<le> m" and "round_double m = Some r"
  shows "0 \<le> r"
proof (cases "m = 0")
  case True
  with assms(2) show ?thesis by (simp add: round_double_def)
next
  case False
  with assms(1) have m: "0 < m" by simp
  from round_double_parts [OF m assms(2)] obtain n where
    "0 \<le> n" "r = of_int n * powz 2 (max (floor_log2 m) (- 1022) - 52)" by blast
  then show ?thesis using p2_pos [of "max (floor_log2 m) (- 1022) - 52"] by simp
qed

lemma round_double_integral:
  assumes "0 \<le> m" and "round_double m = Some r" and "powz 2 53 \<le> r"
  shows "\<exists>k. r = of_int k"
proof -
  have m: "0 < m"
  proof (rule ccontr)
    assume "\<not> 0 < m"
    with assms(1) have "m = 0" by simp
    with assms(2) have "r = 0" by (simp add: round_double_def)
    with assms(3) p2_pos [of 53] show False by simp
  qed
  define e where "e = max (floor_log2 m) (- 1022)"
  from round_double_parts [OF m assms(2)] obtain n where
    n: "0 \<le> n" "n \<le> 2 ^ 53" "r = of_int n * powz 2 (e - 52)" unfolding e_def by blast
  have e: "52 \<le> e"
  proof (rule ccontr)
    assume "\<not> 52 \<le> e"
    then have "e + 1 \<le> 52" by simp
    from n(2) have "(of_int n :: rat) \<le> of_int (2 ^ 53)" by (simp only: of_int_le_iff)
    then have "of_int n \<le> powz 2 (int 53)" by (simp only: p2_of_nat)
    then have "of_int n * powz 2 (e - 52) \<le> powz 2 (int 53) * powz 2 (e - 52)"
      using p2_pos [of "e - 52"] by (simp add: mult_right_mono)
    also have "\<dots> = powz 2 (e + 1)" using p2_add [of 53 "e - 52"] by (simp add: add.commute)
    also have "\<dots> \<le> powz 2 52" using \<open>e + 1 \<le> 52\<close> by (simp add: p2_le_iff)
    also have "\<dots> < powz 2 53" by (simp add: p2_less_iff)
    finally show False using assms(3) n(3) by simp
  qed
  then have "e - 52 = int (nat (e - 52))" by simp
  then have "powz 2 (e - 52) = of_int (2 ^ nat (e - 52))" using p2_of_nat [of "nat (e - 52)"] by simp
  with n(3) have "r = of_int (n * 2 ^ nat (e - 52))" by simp
  then show ?thesis by blast
qed

lemma round2_of_int: "round2 (of_int k) = of_int k"
proof -
  have "\<lfloor>(of_int k :: rat) * 100 + 1 / 2\<rfloor> = k * 100"
    by (rule floor_unique) simp_all
  then show ?thesis by (simp add: round2_def)
qed

lemma p2_53_le_p10_21: "powz 2 53 \<le> powz 10 21"
  by (simp add: powz_eq_powi)

lemma input_handler_amounts:
  assumes "isFetching s"
  shows "sourceCurrentValue (inputSourceCurrency_input s)
           = or_zero (parseFloat (inputSourceCurrency_value s))"
    and "targetCurrentValue (inputSourceCurrency_input s)
           = Str (toFixed (js_mul (or_zero (parseFloat (inputSourceCurrency_value s)))
                                  (ToNumber (conversionRate s))) 2)"
  using assms
  by (simp_all add: inputSourceCurrency_input_def Let_def updateExchangeRate_amounts)

text \<open>
  Claim C1. While a rate \<open>r > 0\<close> is held, typing an amount \<open>a \<ge> 0\<close> makes
  \<open>updateExchangeRate\<close> store \<open>(a * r).toFixed(2)\<close> as the output amount, where
  \<open>a * r\<close> is the double product. When that product \<open>p\<close> is finite and below
  \<open>10^21\<close> the stored string is the decimal numeral, with exactly two fraction
  digits, of \<open>p\<close> rounded to the nearest hundredth; from \<open>10^21\<close> on \<open>p\<close> is a
  whole number, equal to its own rounding, and is stored as \<open>String(p)\<close>.
\<close>

theorem input_recomputes_output:
  assumes "isFetching (current st)"
    and "conversionRate (current st) = Num (Finite False r)" and "0 < r"
    and "or_zero (parseFloat v) = Finite False a" and "0 \<le> a"
  shows "sourceCurrentValue (current (fst (step tbl (Input v) st))) = Finite False a
       \<and> targetCurrentValue (current (fst (step tbl (Input v) st)))
           = Str (toFixed (js_mul (Finite False a) (Finite False r)) 2)
       \<and> (\<forall>p. js_mul (Finite False a) (Finite False r) = Finite False p \<longrightarrow>
              0 \<le> p
            \<and> (p < powz 10 21 \<longrightarrow>
                 targetCurrentValue (current (fst (step tbl (Input v) st))) = Str (fixed2 (round2 p)))
            \<and> (powz 10 21 \<le> p \<longrightarrow>
                 targetCurrentValue (current (fst (step tbl (Input v) st))) = Str (positive_to_string p)
                 \<and> round2 p = p))"
proof -
  define s where "s = (current st)\<lparr>inputSourceCurrency_value := v\<rparr>"
  have s: "isFetching s" "conversionRate s = Num (Finite False r)" "inputSourceCurrency_value s = v"
    using assms(1,2) by (simp_all add: s_def)
  have src: "sourceCurrentValue (current (fst (step tbl (Input v) st))) = Finite False a"
    using input_handler_amounts(1) [OF s(1)] s(3) assms(4) by (simp add: s_def)
  have tgt: "targetCurrentValue (current (fst (step tbl (Input v) st)))
           = Str (toFixed (js_mul (Finite False a) (Finite False r)) 2)"
    using input_handler_amounts(2) [OF s(1)] s(2,3) assms(4) by (simp add: s_def del: js_mul.simps)
  have rest: "0 \<le> p \<and> (p < powz 10 21 \<longrightarrow> toFixed (Finite False p) 2 = fixed2 (round2 p))
            \<and> (powz 10 21 \<le> p \<longrightarrow> toFixed (Finite False p) 2 = positive_to_string p \<and> round2 p = p)"
    if p: "js_mul (Finite False a) (Finite False r) = Finite False p" for p
  proof -
    from p have rd: "round_double (a * r) = Some p"
      by (simp add: to_double_def split: option.splits)
    from assms(3,5) have ar: "0 \<le> a * r" by simp
    from round_double_nonneg [OF ar rd] have p0: "0 \<le> p" .
    have small: "toFixed (Finite False p) 2 = fixed2 (round2 p)" if "p < powz 10 21"
      using toFixed_2 [OF p0 that, of False] by simp
    have large: "toFixed (Finite False p) 2 = positive_to_string p \<and> round2 p = p"
      if big: "powz 10 21 \<le> p"
    proof -
      from big p2_53_le_p10_21 have "powz 2 53 \<le> p" by linarith
      from round_double_integral [OF ar rd this] obtain k where "p = of_int k" by blast
      then have "round2 p = p" by (simp add: round2_of_int)
      moreover have "toFixed (Finite False p) 2 = positive_to_string p"
        using big by (simp add: toFixed_def)
      ultimately show ?thesis by simp
    qed
    from p0 small large show ?thesis by blast
  qed
  show ?thesis
    using src tgt rest by (simp del: js_mul.simps)
qed

theorem input_recomputes_output_witness:
  "isFetching (current fetched_system)
   \<and> conversionRate (current fetched_system) = Num (Finite False 56)
   \<and> (0::rat) < 56
   \<and> or_zero (parseFloat ''0.001953125'') = Finite False (1 / 512)
   \<and> js_mul (Finite False (1 / 512)) (Finite False 56) = Finite False (7 / 64)
   \<and> 7 / 64 < powz 10 21
   \<and> sourceCurrentValue (current (fst (step example_flags (Input ''0.001953125'') fetched_system)))
        = Finite False (1 / 512)
   \<and> targetCurrentValue (current (fst (step example_flags (Input ''0.001953125'') fetched_system)))
        = Str ''0.11''
   \<and> fixed2 (round2 (7 / 64)) = ''0.11''
   \<and> or_zero (parseFloat ''1e21'') = Finite False (powz 10 21)
   \<and> js_mul (Finite False (powz 10 21)) (Finite False 56) = Finite False (56 * powz 10 21)
   \<and> powz 10 21 \<le> 56 * powz 10 21
   \<and> targetCurrentValue (current (fst (step example_flags (Input ''1e21'') fetched_system)))
        = Str ''5.6e+22''
   \<and> round2 (56 * powz 10 21) = 56 * powz 10 21"
proof -
  have f: "isFetching (current fetched_system)"
    and r: "conversionRate (current fetched_system) = Num (Finite False 56)"
    by (simp_all add: fetched_system_eval)
  have pos: "(0::rat) < 56" by simp
  have a: "or_zero (parseFloat ''0.001953125'') = Finite False (1 / 512)" by code_simp
  have nonneg: "(0::rat) \<le> 1 / 512" by simp
  have m: "js_mul (Finite False (1 / 512)) (Finite False 56) = Finite False (7 / 64)" by code_simp
  have lt: "7 / 64 < powz 10 21" by code_simp
  have s: "fixed2 (round2 (7 / 64)) = ''0.11''" by code_simp
  note t = input_recomputes_output [OF f r pos a nonneg, of example_flags]
  from t have t1: "sourceCurrentValue (current (fst (step example_flags (Input ''0.001953125'') fetched_system)))
        = Finite False (1 / 512)" by blast
  from t m lt have "targetCurrentValue (current (fst (step example_flags (Input ''0.001953125'') fetched_system)))
        = Str (fixed2 (round2 (7 / 64)))" by blast
  with s have t2: "targetCurrentValue (current (fst (step example_flags (Input ''0.001953125'') fetched_system)))
        = Str ''0.11''" by simp
  have a': "or_zero (parseFloat ''1e21'') = Finite False (powz 10 21)" by code_simp
  have nonneg': "0 \<le> powz 10 21" by code_simp
  have m': "js_mul (Finite False (powz 10 21)) (Finite False 56) = Finite False (56 * powz 10 21)"
    by code_simp
  have ge: "powz 10 21 \<le> 56 * powz 10 21" by code_simp
  have s': "positive_to_string (56 * powz 10 21) = ''5.6e+22''" by code_simp
  note t' = input_recomputes_output [OF f r pos a' nonneg', of example_flags]
  from t' m' ge have big: "targetCurrentValue (current (fst (step example_flags (Input ''1e21'') fetched_system)))
        = Str (positive_to_string (56 * powz 10 21))"
    and t4: "round2 (56 * powz 10 21) = 56 * powz 10 21" by blast+
  from big s' have t3: "targetCurrentValue (current (fst (step example_flags (Input ''1e21'') fetched_system)))
        = Str ''5.6e+22''" by simp
  from f r pos a m lt t1 t2 s a' m' ge t3 t4 show ?thesis by blast
qed

lemma mod_100_split: "(k::int) mod 100 = 10 * (k div 10 mod 10) + k mod 10"
proof -
  have "k mod (10 * 10) = 10 * (k div 10 mod 10) + k mod 10" by (rule zmod_zmult2_eq) simp
  then show ?thesis by simp
qed

lemma digit_ranges:
  "0 \<le> (k::int) mod 10" "k mod 10 \<le> 9" "0 \<le> k div 10 mod 10" "k div 10 mod 10 \<le> 9"
  "0 \<le> k mod 100 div 10" "k mod 100 div 10 \<le> 9"
proof -
  show "0 \<le> k mod 10" "0 \<le> k div 10 mod 10" by simp_all
  have "k mod 10 < 10" "k div 10 mod 10 < 10" by simp_all
  then show "k mod 10 \<le> 9" "k div 10 mod 10 \<le> 9" by linarith+
  have "0 \<le> k mod 100" "k mod 100 < 100" by simp_all
  then show "0 \<le> k mod 100 div 10" "k mod 100 div 10 \<le> 9" by simp_all
qed

lemma pad3:
  assumes "0 \<le> k" and "k < 1000"
  shows "replicate (3 - length (digits_of k)) (CHR ''0'') @ digits_of k
         = [digit_char (k div 100), digit_char (k div 10 mod 10), digit_char (k mod 10)]"
proof -
  consider "k < 10" | "10 \<le> k" "k < 100" | "100 \<le> k" by linarith
  then show ?thesis
  proof cases
    case 1
    with assms have "k div 100 = 0" "k div 10 = 0" "k mod 10 = k" by simp_all
    with 1 show ?thesis
      by (simp add: digits_of_small digit_char_0 numeral_2_eq_2)
  next
    case 2
    with assms have "k div 100 = 0" "k div 10 mod 10 = k div 10" by simp_all
    with 2 show ?thesis
      by (simp add: digits_of_two digit_char_0)
  next
    case 3
    from assms 3 have h: "k div 100 < 10" by simp
    have "k mod 100 div 10 = k div 10 mod 10" using mod_100_split [of k] by simp
    with 3 h show ?thesis
      by (simp add: digits_of_hundreds digits_of_small)
  qed
qed

lemma strip_three:
  assumes "0 \<le> k" and "k < 1000"
  shows "(let fp = strip_trailing_zeros
                     (replicate (3 - length (digits_of k)) (CHR ''0'') @ digits_of k)
          in if fp = [] then [] else ''.'' @ fp)
         = fraction_digits k"
proof -
  define a where "a = k div 100"
  define b where "b = k div 10 mod 10"
  define c where "c = k mod 10"
  have k100: "k mod 100 = 10 * b + c" unfolding b_def c_def by (rule mod_100_split)
  have k: "k = 100 * a + k mod 100" unfolding a_def by simp
  from assms have a: "0 \<le> a" "a \<le> 9" by (simp_all add: a_def)
  have b: "0 \<le> b" "b \<le> 9" and c: "0 \<le> c" "c \<le> 9"
    unfolding b_def c_def by (rule digit_ranges)+
  have z: "(digit_char a = CHR ''0'') = (a = 0)" "(digit_char b = CHR ''0'') = (b = 0)"
    "(digit_char c = CHR ''0'') = (c = 0)"
    using a b c by (simp_all add: digit_char_props)
  have m10: "(k mod 10 = 0) = (c = 0)" by (simp add: c_def)
  have m100: "(k mod 100 = 0) = (b = 0 \<and> c = 0)"
  proof
    assume "k mod 100 = 0"
    with k100 have "10 * b + c = 0" by simp
    with b(1) c(1) have "b = 0" "c = 0" by linarith+
    then show "b = 0 \<and> c = 0" by simp
  next
    assume "b = 0 \<and> c = 0"
    with k100 show "k mod 100 = 0" by simp
  qed
  from k k100 have kk: "k = 100 * a + 10 * b + c" by linarith
  have k0: "(k = 0) = (a = 0 \<and> b = 0 \<and> c = 0)"
  proof
    assume "k = 0"
    with kk have "100 * a + 10 * b + c = 0" by simp
    with a(1) b(1) c(1) have "a = 0" "b = 0" "c = 0" by linarith+
    then show "a = 0 \<and> b = 0 \<and> c = 0" by simp
  next
    assume "a = 0 \<and> b = 0 \<and> c = 0"
    with kk show "k = 0" by simp
  qed
  have "replicate (3 - length (digits_of k)) (CHR ''0'') @ digits_of k
         = [digit_char a, digit_char b, digit_char c]"
    unfolding a_def b_def c_def by (rule pad3 [OF assms])
  then show ?thesis
    by (simp add: strip_trailing_zeros_def fraction_digits_def z m10 m100 k0 Let_def digit_char_0
          a_def [symmetric] b_def [symmetric] c_def [symmetric])
qed

lemma format_decimal_nonneg:
  assumes "0 \<le> m"
  shows "format_decimal (Finite False m)
         = (let N = \<lfloor>m * 1000 + 1 / 2\<rfloor>
            in group_digits (digits_of (N div 1000)) @ fraction_digits (N mod 1000))"
proof -
  define N where "N = \<lfloor>m * 1000 + 1 / 2\<rfloor>"
  have "0 \<le> N mod 1000" "N mod 1000 < 1000" by simp_all
  note s = strip_three [OF this]
  show ?thesis
    by (simp add: format_decimal_def Let_def N_def [symmetric] s [unfolded Let_def, symmetric])
qed

lemma is_digit_not_other:
  assumes "is_digit c"
  shows "c \<noteq> CHR ''-''" "c \<noteq> CHR ''+''" "c \<noteq> CHR ''I''" "c \<noteq> CHR ''.''" "\<not> is_ws c"
    "c \<notin> set ''xXoObB''"
  using assms by (auto simp add: is_digit_def is_ws_def)

lemma dot_not_digit: "\<not> is_digit (CHR ''.'')" "CHR ''.'' \<notin> set ''xXoObB''"
  by (simp_all add: is_digit_def)

lemma takeWhile_digits_dot:
  assumes "list_all is_digit ds"
  shows "takeWhile is_digit (ds @ CHR ''.'' # rest) = ds"
    and "dropWhile is_digit (ds @ CHR ''.'' # rest) = CHR ''.'' # rest"
  using assms by (simp_all add: list_all_iff takeWhile_append2 dropWhile_append2 dot_not_digit)

lemma takeWhile_two_digits:
  assumes "is_digit d1" and "is_digit d2"
  shows "takeWhile is_digit [d1, d2] = [d1, d2]" and "dropWhile is_digit [d1, d2] = []"
  using assms by simp_all

lemma parse_digits_two:
  "parse_digits (ds @ [d1, d2]) = 100 * parse_digits ds + 10 * digit_val d1 + digit_val d2"
  by (simp add: parse_digits_def)

lemma p10_m2: "powz 10 (- 2) = 1 / 100"
  by (simp add: powz_eq_powi power_int_minus)

lemma scan_decimal_fixed:
  assumes "ds \<noteq> []" and "list_all is_digit ds" and "is_digit d1" and "is_digit d2"
  shows "scan_decimal (ds @ CHR ''.'' # [d1, d2])
         = Some (False, MV (of_int (parse_digits (ds @ [d1, d2])) / 100), [])"
proof -
  from assms(1) obtain c cs where ds: "ds = c # cs" by (cases ds) auto
  with assms(2) have c: "is_digit c" by simp
  have inf: "take 8 (ds @ CHR ''.'' # [d1, d2]) \<noteq> ''Infinity''"
    using is_digit_not_other(3) [OF c] by (simp add: ds)
  have ex: "scan_exponent [] = (0, [])" by (simp add: scan_exponent_def)
  have u: "scan_unsigned (ds @ CHR ''.'' # [d1, d2])
         = Some (MV (of_int (parse_digits (ds @ [d1, d2])) / 100), [])"
    using inf assms(1)
    by (simp add: scan_unsigned_def takeWhile_digits_dot [OF assms(2)]
          takeWhile_two_digits [OF assms(3,4)] ex p10_m2 Let_def
          del: takeWhile.simps dropWhile.simps)
  show ?thesis
    using is_digit_not_other(1,2) [OF c] u
    by (simp add: scan_decimal_def ds)
qed

lemma is_digit_not_ws:
  assumes "is_digit c"
  shows "\<not> is_ws2 c b" "\<not> is_ws3 c b d" "\<not> is_ws2 b c" "\<not> is_ws3 a b c"
  using assms by (auto simp add: is_digit_def is_ws2_def is_ws3_def)

lemma trim_start_digit:
  assumes "is_digit c"
  shows "trim_start (c # s) = c # s"
proof (cases s)
  case Nil
  then show ?thesis using is_digit_not_other(5) [OF assms] by simp
next
  case (Cons b t)
  show ?thesis
  proof (cases t)
    case Nil
    then show ?thesis
      using is_digit_not_other(5) [OF assms] is_digit_not_ws(1) [OF assms] Cons by simp
  next
    case (Cons d u)
    then show ?thesis
      using is_digit_not_other(5) [OF assms] is_digit_not_ws(1,2) [OF assms] \<open>s = b # t\<close>
      by simp
  qed
qed

lemma trim_start_rev_digit:
  assumes "is_digit c"
  shows "trim_start_rev (c # s) = c # s"
proof (cases s)
  case Nil
  then show ?thesis using is_digit_not_other(5) [OF assms] by simp
next
  case (Cons b t)
  show ?thesis
  proof (cases t)
    case Nil
    then show ?thesis
      using is_digit_not_other(5) [OF assms] is_digit_not_ws(3) [OF assms] Cons by simp
  next
    case (Cons d u)
    then show ?thesis
      using is_digit_not_other(5) [OF assms] is_digit_not_ws(3,4) [OF assms] \<open>s = b # t\<close>
      by simp
  qed
qed

lemma trim_no_ws:
  assumes "is_digit c" and "is_digit d"
  shows "trim (c # s @ [d]) = c # s @ [d]"
proof -
  have a: "trim_start (c # s @ [d]) = c # s @ [d]" by (rule trim_start_digit [OF assms(1)])
  have b: "trim_start_rev (d # rev s @ [c]) = d # rev s @ [c]"
    by (rule trim_start_rev_digit [OF assms(2)])
  show ?thesis unfolding trim_def a using b by simp
qed

lemma radix_literal_second:
  assumes "c2 \<notin> set ''xXoObB''"
  shows "radix_literal (c # c2 # rest) = None"
  using assms by (simp add: radix_literal_def Let_def)

lemma fixed_string_shape:
  assumes "ds \<noteq> []" and "list_all is_digit ds" and "is_digit d1" and "is_digit d2"
  shows "trim (ds @ CHR ''.'' # [d1, d2]) = ds @ CHR ''.'' # [d1, d2]"
    and "radix_literal (ds @ CHR ''.'' # [d1, d2]) = None"
proof -
  from assms(1) obtain c cs where ds: "ds = c # cs" by (cases ds) auto
  with assms(2) have c: "is_digit c" by simp
  show "trim (ds @ CHR ''.'' # [d1, d2]) = ds @ CHR ''.'' # [d1, d2]"
    using trim_no_ws [OF c assms(4), of "cs @ [CHR ''.'', d1]"] by (simp add: ds)
  show "radix_literal (ds @ CHR ''.'' # [d1, d2]) = None"
  proof (cases cs)
    case Nil
    then show ?thesis using dot_not_digit(2) by (simp add: ds radix_literal_second)
  next
    case (Cons c' cs')
    with assms(2) ds have "is_digit c'" by simp
    from is_digit_not_other(6) [OF this] show ?thesis
      by (simp add: ds Cons radix_literal_second)
  qed
qed

lemma string_to_intl_mv_fixed:
  assumes "ds \<noteq> []" and "list_all is_digit ds" and "is_digit d1" and "is_digit d2"
  shows "string_to_intl_mv (ds @ CHR ''.'' # [d1, d2])
         = (case round_double (of_int (parse_digits (ds @ [d1, d2])) / 100) of
              None \<Rightarrow> Infinite False
            | Some d \<Rightarrow> if d = 0 then Finite False 0
                        else Finite False (of_int (parse_digits (ds @ [d1, d2])) / 100))"
  using assms(1)
  by (simp add: string_to_intl_mv_def fixed_string_shape [OF assms] scan_decimal_fixed [OF assms])

lemma hundredths_value:
  assumes "0 \<le> n"
  shows "parse_digits (digits_of (n div 100) @ [digit_char (n mod 100 div 10), digit_char (n mod 10)]) = n"
proof -
  have h: "0 \<le> n div 100" using assms by simp
  have "n mod 100 mod 10 = n mod 10" by (rule mod_mod_cancel) simp
  then have s: "n mod 100 = 10 * (n mod 100 div 10) + n mod 10"
    using div_mult_mod_eq [of "n mod 100" 10] by simp
  have "n = 100 * (n div 100) + n mod 100" by simp
  with s have "n = 100 * (n div 100) + 10 * (n mod 100 div 10) + n mod 10" by linarith
  then show ?thesis
    by (simp add: parse_digits_two parse_digits_of [OF h] digit_char_props digit_ranges)
qed

lemma round_double_nonzero:
  assumes "powz 2 (- 1022) \<le> q" and "round_double q = Some d"
  shows "d \<noteq> 0"
proof
  assume "d = 0"
  with round_double_normal_error [OF assms] have "\<bar>q\<bar> \<le> q * powz 2 (- 53)" by simp
  moreover from assms(1) have q: "0 < q" using p2_pos [of "- 1022"] by linarith
  ultimately have "q * 1 \<le> q * powz 2 (- 53)" by simp
  with q have "1 \<le> powz 2 (- 53)" by (simp only: mult_le_cancel_left_pos)
  then show False by (simp add: u_val)
qed

lemma hundredths_bounds:
  "powz 2 (- 1022) \<le> 1 / 100" "powz 10 21 + 1 \<le> powz 2 1023"
proof -
  have "powz 2 (- 1022) \<le> powz 2 (- 7)" by (simp add: p2_le_iff)
  moreover have "powz 2 (- 7) = 1 / 128" by (simp add: powz_eq_powi power_int_minus)
  ultimately show "powz 2 (- 1022) \<le> 1 / 100" by simp
  have "powz 2 70 \<le> powz 2 1023" by (simp add: p2_le_iff)
  moreover have "powz 10 21 + 1 \<le> powz 2 70" by (simp add: powz_eq_powi)
  ultimately show "powz 10 21 + 1 \<le> powz 2 1023" by linarith
qed

lemma intl_value_of_fixed2:
  assumes "0 \<le> m" and "m < powz 10 21"
  shows "string_to_intl_mv (fixed2 (round2 m)) = Finite False (round2 m)"
proof -
  define n where "n = \<lfloor>m * 100 + 1 / 2\<rfloor>"
  from assms(1) have n: "0 \<le> n" by (simp add: n_def)
  have r: "round2 m = of_int n / 100" by (simp add: round2_def n_def)
  have fl: "\<lfloor>round2 m * 100\<rfloor> = n" by (simp add: r)
  define ds where "ds = digits_of (n div 100)"
  define d1 where "d1 = digit_char (n mod 100 div 10)"
  define d2 where "d2 = digit_char (n mod 10)"
  have f: "fixed2 (round2 m) = ds @ CHR ''.'' # [d1, d2]"
    by (simp add: fixed2_def fl ds_def d1_def d2_def)
  have a: "ds \<noteq> []" "list_all is_digit ds" "is_digit d1" "is_digit d2"
    using n by (simp_all add: ds_def d1_def d2_def digits_of_all_digits digit_char_props digit_ranges)
  have v: "of_int (parse_digits (ds @ [d1, d2])) / 100 = round2 m"
    unfolding ds_def d1_def d2_def by (simp add: hundredths_value [OF n] r)
  have main: "(case round_double (round2 m) of
              None \<Rightarrow> Infinite False
            | Some d \<Rightarrow> if d = 0 then Finite False 0 else Finite False (round2 m))
         = Finite False (round2 m)"
  proof (cases "n = 0")
    case True
    then show ?thesis by (simp add: r round_double_def)
  next
    case False
    with n have "1 \<le> n" by simp
    then have "(1::rat) \<le> of_int n" by simp
    then have "1 / 100 \<le> round2 m" by (simp add: r)
    with hundredths_bounds(1) have lo: "powz 2 (- 1022) \<le> round2 m" by linarith
    then have pos: "0 < round2 m" using p2_pos [of "- 1022"] by linarith
    have "of_int n \<le> m * 100 + 1 / 2" unfolding n_def by (rule of_int_floor_le)
    then have "round2 m \<le> m + 1 / 200" by (simp add: r)
    with assms(2) hundredths_bounds(2) have hi: "round2 m < powz 2 1023" by linarith
    from round_double_Some [OF pos hi] obtain d where d: "round_double (round2 m) = Some d" by blast
    from round_double_nonzero [OF lo d] d show ?thesis by simp
  qed
  show ?thesis
    unfolding f string_to_intl_mv_fixed [OF a] v by (rule main)
qed

lemma fraction_digits_tenfold:
  assumes "0 \<le> k" and "k < 100"
  shows "fraction_digits (10 * k)
         = (if k = 0 then []
            else if k mod 10 = 0 then ''.'' @ [digit_char (k div 10)]
            else ''.'' @ [digit_char (k div 10), digit_char (k mod 10)])"
proof -
  have a: "10 * k div 100 = k div 10"
    using div_mult_mult1 [of 10 k 10] by simp
  have b: "10 * k mod 100 = 10 * (k mod 10)"
    using mult_mod_right [of 10 k 10] by simp
  show ?thesis
    by (simp add: fraction_digits_def a b)
qed

lemma p10_pos: "0 < powz 10 k"
  by (simp add: powz_eq_powi)

lemma digit_candidates_nonneg:
  assumes "0 \<le> x" and "c \<in> set (digit_candidates x n0 k)"
  shows "0 \<le> fst c"
proof -
  have lo: "0 \<le> \<lfloor>x / powz 10 (n0 - k)\<rfloor>"
    using assms(1) p10_pos [of "n0 - k"] by simp
  have up: "0 \<le> \<lfloor>powz 10 (k - 1)\<rfloor>"
    using p10_pos [of "k - 1"] by simp
  from assms(2) have "c = (\<lfloor>x / powz 10 (n0 - k)\<rfloor>, n0)
      \<or> c = (\<lfloor>powz 10 (k - 1)\<rfloor>, n0 + 1)
      \<or> c = (\<lfloor>x / powz 10 (n0 - k)\<rfloor> + 1, n0)"
    by (auto simp add: digit_candidates_def Let_def split: if_splits)
  with lo up show ?thesis by auto
qed

lemma pick_closest_mem:
  assumes "pick_closest x k cs = Some c"
  shows "c \<in> set cs"
  using assms
  by (induction x k cs rule: pick_closest.induct) (auto simp add: Let_def split: if_splits)

lemma shortest_from_nonneg:
  assumes "0 \<le> x"
  shows "0 \<le> fst (shortest_from x n0 k fuel)"
proof (induction fuel arbitrary: k)
  case 0
  show ?case using assms p10_pos [of "n0 - k"] by simp
next
  case (Suc fuel)
  show ?case
  proof (cases "pick_closest x k (digit_candidates x n0 k)")
    case None
    then show ?thesis using Suc.IH [of "k + 1"] by simp
  next
    case (Some c)
    from pick_closest_mem [OF Some] have "0 \<le> fst c"
      by (rule digit_candidates_nonneg [OF assms])
    with Some show ?thesis by (cases c) simp
  qed
qed

lemma shortest_decimal_nonneg:
  assumes "0 \<le> m"
  shows "0 \<le> shortest_decimal m"
proof (cases "m = 0")
  case True
  then show ?thesis by (simp add: shortest_decimal_def)
next
  case False
  obtain s n k where d: "shortest_digits m = (s, n, k)" by (cases "shortest_digits m") auto
  from shortest_from_nonneg [OF assms, of "decimal_exponent m" 1 17] d
  have "0 \<le> s" by (simp add: shortest_digits_def)
  with p10_pos [of "n - k"] have "0 \<le> of_int s * powz 10 (n - k)" by simp
  with False d show ?thesis by (simp add: shortest_decimal_def)
qed

text \<open>
  Claim C3, amended. \<open>formatCurrency\<close> shows a value rounded to thousandths: the
  integer part with a comma before each group of three digits, then at most three
  fraction digits, trailing zeros dropped. For a non-negative Number the value that is
  rounded is the decimal with the fewest digits that rounds back to the Number (the one
  \<open>String\<close> prints). A converted amount (the two-decimal string of \<open>toFixed\<close>) is
  shown with no fraction when it is whole, with one digit when its hundredths digit is
  zero, and with two digits otherwise.
\<close>

theorem formatCurrency_shape:
  assumes "0 \<le> m"
  shows "formatCurrency (Num (Finite False m))
           = (let N = \<lfloor>shortest_decimal m * 1000 + 1 / 2\<rfloor>
              in group_digits (digits_of (N div 1000)) @ fraction_digits (N mod 1000))
       \<and> (m < powz 10 21 \<longrightarrow>
            formatCurrency (Str (toFixed (Finite False m) 2))
              = (let n = \<lfloor>m * 100 + 1 / 2\<rfloor>
                 in group_digits (digits_of (n div 100)) @
                    (if n mod 100 = 0 then []
                     else if n mod 10 = 0 then ''.'' @ [digit_char (n mod 100 div 10)]
                     else ''.'' @ [digit_char (n mod 100 div 10), digit_char (n mod 10)])))"
proof (intro conjI impI)
  show "formatCurrency (Num (Finite False m))
           = (let N = \<lfloor>shortest_decimal m * 1000 + 1 / 2\<rfloor>
              in group_digits (digits_of (N div 1000)) @ fraction_digits (N mod 1000))"
    by (simp add: formatCurrency_def format_decimal_nonneg [OF shortest_decimal_nonneg [OF assms]])
next
  assume lt: "m < powz 10 21"
  define n where "n = \<lfloor>m * 100 + 1 / 2\<rfloor>"
  from assms have n: "0 \<le> n" by (simp add: n_def)
  have r: "round2 m = of_int n / 100" by (simp add: round2_def n_def)
  have r0: "0 \<le> round2 m" using n by (simp add: r)
  have N: "\<lfloor>round2 m * 1000 + 1 / 2\<rfloor> = 10 * n"
    by (rule floor_unique) (simp_all add: r)
  have a: "10 * n div 1000 = n div 100"
    using div_mult_mult1 [of 10 n 100] by simp
  have b: "10 * n mod 1000 = 10 * (n mod 100)"
    using mult_mod_right [of 10 n 100] by simp
  have k: "0 \<le> n mod 100" "n mod 100 < 100" by simp_all
  have c: "n mod 100 mod 10 = n mod 10" by (rule mod_mod_cancel) simp
  have "formatCurrency (Str (toFixed (Finite False m) 2))
          = format_decimal (Finite False (round2 m))"
    by (simp add: formatCurrency_def toFixed_2 [OF assms lt] intl_value_of_fixed2 [OF assms lt])
  also have "\<dots> = group_digits (digits_of (n div 100)) @ fraction_digits (10 * (n mod 100))"
    by (simp add: format_decimal_nonneg [OF r0] N a b)
  finally show "formatCurrency (Str (toFixed (Finite False m) 2))
              = (let n = \<lfloor>m * 100 + 1 / 2\<rfloor>
                 in group_digits (digits_of (n div 100)) @
                    (if n mod 100 = 0 then []
                     else if n mod 10 = 0 then ''.'' @ [digit_char (n mod 100 div 10)]
                     else ''.'' @ [digit_char (n mod 100 div 10), digit_char (n mod 10)]))"
    by (simp add: fraction_digits_tenfold [OF k] c n_def [symmetric] Let_def)
qed

theorem formatCurrency_shape_witness:
  "(0::rat) \<le> 5600 \<and> 5600 < powz 10 21
   \<and> shortest_decimal 5600 = 5600
   \<and> formatCurrency (Num (Finite False 5600)) = ''5,600''
   \<and> toFixed (Finite False 5600) 2 = ''5600.00''
   \<and> formatCurrency (Str (toFixed (Finite False 5600) 2)) = ''5,600''
   \<and> (0::rat) \<le> 4937 / 4 \<and> 4937 / 4 < powz 10 21
   \<and> shortest_decimal (4937 / 4) = 4937 / 4
   \<and> formatCurrency (Num (Finite False (4937 / 4))) = ''1,234.25''
   \<and> toFixed (Finite False (4937 / 4)) 2 = ''1234.25''
   \<and> formatCurrency (Str (toFixed (Finite False (4937 / 4)) 2)) = ''1,234.25''
   \<and> (0::rat) \<le> 4505851427184181 / 4503599627370496
   \<and> StringToNumber ''1.0005'' = Finite False (4505851427184181 / 4503599627370496)
   \<and> shortest_decimal (4505851427184181 / 4503599627370496) = 2001 / 2000
   \<and> formatCurrency (Num (Finite False (4505851427184181 / 4503599627370496))) = ''1.001''"
proof -
  have h: "(0::rat) \<le> 5600" "(0::rat) \<le> 4937 / 4"
    "(0::rat) \<le> 4505851427184181 / 4503599627370496" by simp_all
  have p: "StringToNumber ''1.0005'' = Finite False (4505851427184181 / 4503599627370496)"
    by code_simp
  have s3: "shortest_decimal (4505851427184181 / 4503599627370496) = 2001 / 2000"
    by code_simp
  have e5: "(let N = \<lfloor>(2001 / 2000 :: rat) * 1000 + 1 / 2\<rfloor>
              in group_digits (digits_of (N div 1000)) @ fraction_digits (N mod 1000)) = ''1.001''"
    by code_simp
  from formatCurrency_shape [OF h(3)] e5
  have c: "formatCurrency (Num (Finite False (4505851427184181 / 4503599627370496))) = ''1.001''"
    unfolding s3 by simp
  have l: "5600 < powz 10 21" "4937 / 4 < powz 10 21" by code_simp+
  have s: "shortest_decimal 5600 = 5600" "shortest_decimal (4937 / 4) = 4937 / 4"
    by code_simp+
  have e1: "(let N = \<lfloor>(5600::rat) * 1000 + 1 / 2\<rfloor>
              in group_digits (digits_of (N div 1000)) @ fraction_digits (N mod 1000)) = ''5,600''"
    by code_simp
  have e2: "(let n = \<lfloor>(5600::rat) * 100 + 1 / 2\<rfloor>
                 in group_digits (digits_of (n div 100)) @
                    (if n mod 100 = 0 then []
                     else if n mod 10 = 0 then ''.'' @ [digit_char (n mod 100 div 10)]
                     else ''.'' @ [digit_char (n mod 100 div 10), digit_char (n mod 10)])) = ''5,600''"
    by code_simp
  have e3: "(let n = \<lfloor>(4937 / 4 :: rat) * 100 + 1 / 2\<rfloor>
                 in group_digits (digits_of (n div 100)) @
                    (if n mod 100 = 0 then []
                     else if n mod 10 = 0 then ''.'' @ [digit_char (n mod 100 div 10)]
                     else ''.'' @ [digit_char (n mod 100 div 10), digit_char (n mod 10)])) = ''1,234.25''"
    by code_simp
  have e4: "(let N = \<lfloor>(4937 / 4 :: rat) * 1000 + 1 / 2\<rfloor>
              in group_digits (digits_of (N div 1000)) @ fraction_digits (N mod 1000)) = ''1,234.25''"
    by code_simp
  have t: "toFixed (Finite False 5600) 2 = ''5600.00''"
    "toFixed (Finite False (4937 / 4)) 2 = ''1234.25''"
    by code_simp+
  from formatCurrency_shape [OF h(1)] l(1) e1 e2
  have a: "formatCurrency (Num (Finite False 5600)) = ''5,600''"
    "formatCurrency (Str (toFixed (Finite False 5600) 2)) = ''5,600''"
    unfolding s(1) by simp_all
  from formatCurrency_shape [OF h(2)] l(2) e3 e4
  have b: "formatCurrency (Num (Finite False (4937 / 4))) = ''1,234.25''"
    "formatCurrency (Str (toFixed (Finite False (4937 / 4)) 2)) = ''1,234.25''"
    unfolding s(2) by simp_all
  from h l s a b t p s3 c show ?thesis by blast
qed

end
